theory Spec2Isabelle
  imports Complex_Main "HOL-Library.Word"
begin

section \<open>The logger sketch \<^verbatim>\<open>main.cpp\<close> (AS7262 + BH1750)\<close>

text \<open>
  The sketch consists of the two Arduino entry points \<^verbatim>\<open>setup()\<close> and \<^verbatim>\<open>loop()\<close>
  and of one global buffer. Everything else it touches is a library: the serial port
  (\<^verbatim>\<open>Serial\<close>), the bus (\<^verbatim>\<open>Wire\<close>) and the two sensor drivers. The embedding keeps the
  sketch as it is written and makes its surroundings explicit:
  \<^item> what the drivers and the serial port answer is an input, the record \<open>env\<close>;
  \<^item> what the sketch does to the outside is a list of events, in the order of the calls;
  \<^item> a loop that may never exit is a \<^theory_text>\<open>partial_function\<close> in the option monad, and
    a call that never comes back is the outcome \<open>Halted\<close> or \<open>Blocked\<close>.
\<close>

subsection \<open>Values\<close>

type_synonym uint8_t = "8 word"
type_synonym uint16_t = "16 word"

text \<open>
  A C \<^verbatim>\<open>float\<close>: not-a-number, the two infinities, or a number. Every finite
  floating-point value is a rational, so \<open>Num\<close> carries a \<^typ>\<open>rat\<close>; the arithmetic
  of \<open>printFloat\<close> below is exact on it (rounding errors of the hardware arithmetic
  are not modelled).
\<close>

datatype cfloat = NaN | PosInf | NegInf | Num rat

text \<open>
  Modelled from the spec: the driver \<^verbatim>\<open>BH1750\<close> is not part of the repository. The
  spec gives it the contract \<^verbatim>\<open>readLightLevel() -> floating-point lux\<close>, the latest
  estimate of the sensor. The sensor counts in 16 bits and the driver returns the count
  divided by 1.2, or \<open>-1\<close> or \<open>-2\<close> when it has no measurement to return. A reading is
  therefore a number from \<open>-2\<close> to \<open>65535 / 1.2 = 54612.5\<close>; the type takes every
  rational in that range, so that it has every float the driver returns and the value
  123.456 of the spec's scenario as well.
\<close>

typedef lux_reading = "{q :: rat. - 2 \<le> q \<and> q \<le> 109225 / 2}"
  by (intro exI[of _ 0]) simp

setup_lifting type_definition_lux_reading

definition readLightLevel :: "lux_reading \<Rightarrow> cfloat" where
  "readLightLevel r = Num (Rep_lux_reading r)"

text \<open>
  Modelled from the spec: the header \<^verbatim>\<open>Adafruit_AS726x.h\<close> is not part of the repository.
  It declares the enumeration of the six channels, which the spec orders violet, blue,
  green, yellow, orange, red, and the number of channels, 6.
\<close>

datatype channels =
  AS726x_VIOLET | AS726x_BLUE | AS726x_GREEN | AS726x_YELLOW | AS726x_ORANGE | AS726x_RED

fun channel_index :: "channels \<Rightarrow> nat" where
  "channel_index AS726x_VIOLET = 0"
| "channel_index AS726x_BLUE = 1"
| "channel_index AS726x_GREEN = 2"
| "channel_index AS726x_YELLOW = 3"
| "channel_index AS726x_ORANGE = 4"
| "channel_index AS726x_RED = 5"

definition AS726x_NUM_CHANNELS :: nat where
  "AS726x_NUM_CHANNELS = 6"

definition all_channels :: "channels list" where
  "all_channels =
     [AS726x_VIOLET, AS726x_BLUE, AS726x_GREEN, AS726x_YELLOW, AS726x_ORANGE, AS726x_RED]"

subsection \<open>Inputs, events and the state of the sketch\<close>

text \<open>
  The answers of the outside world. \<open>serial_ready env i\<close> is what the \<open>i\<close>-th evaluation
  of \<^verbatim>\<open>Serial\<close> in \<^verbatim>\<open>while(!Serial);\<close> yields; \<open>data_ready env c i\<close> is what the \<open>i\<close>-th call
  of \<^verbatim>\<open>as7262.dataReady()\<close> in cycle \<open>c\<close> returns; \<open>spectral env c\<close>, \<open>temperature env c\<close>
  and \<open>light_level env c\<close> are the readings the drivers deliver in cycle \<open>c\<close>.
\<close>

record env =
  serial_ready :: "nat \<Rightarrow> bool"
  as_begin :: bool
  bh_begin :: bool
  data_ready :: "nat \<Rightarrow> nat \<Rightarrow> bool"
  spectral :: "nat \<Rightarrow> channels \<Rightarrow> uint16_t"
  temperature :: "nat \<Rightarrow> uint8_t"
  light_level :: "nat \<Rightarrow> lux_reading"

text \<open>
  Modelled from the spec: the header \<^verbatim>\<open>BH1750.h\<close> is not part of the repository. Of the
  modes it declares, the sketch names the continuous high-resolution one.
\<close>

datatype bh1750_mode = CONTINUOUS_HIGH_RES_MODE

text \<open>
  One event per call that leaves the sketch, with the value the call returned where it
  returns one. \<open>SerialWrite\<close> carries the bytes that one \<^verbatim>\<open>Serial.print\<close> or
  \<^verbatim>\<open>Serial.println\<close> call sends.
\<close>

datatype event =
    SerialBegin nat
  | SerialReady bool
  | WireBegin
  | PinModeLedOutput
  | AsBegin bool
  | BhBegin bh1750_mode bool
  | SerialWrite string
  | StartMeasurement
  | DataReady bool
  | Delay nat
  | ReadRawValues "uint16_t list"
  | ReadTemperature uint8_t
  | ReadLightLevel cfloat

text \<open>
  The state: the global \<^verbatim>\<open>uint16_t sensorValues[AS726x_NUM_CHANNELS]\<close> and the events
  so far. A global array of C++ starts zeroed.
\<close>

record state =
  sensorValues :: "uint16_t list"
  trace :: "event list"

definition init_state :: state where
  "init_state = \<lparr>sensorValues = replicate AS726x_NUM_CHANNELS 0, trace = []\<rparr>"

definition emit :: "event \<Rightarrow> state \<Rightarrow> state" where
  "emit e s = s\<lparr>trace := trace s @ [e]\<rparr>"

text \<open>
  How a call of the sketch ends: it returns; or it has entered \<^verbatim>\<open>while(1);\<close>, whose
  body is empty, so that the state stays what it is for ever (\<open>Halted\<close>); or it has
  entered a wait loop that never exits (\<open>Blocked\<close>, with the state on entry to that
  loop: from then on the sketch only polls).
\<close>

datatype outcome = Returned state | Halted state | Blocked state

subsection \<open>The serial port\<close>

text \<open>
  Modelled from the spec: the class \<^verbatim>\<open>Print\<close> of the Arduino core, which \<^verbatim>\<open>Serial\<close>
  inherits from, is not part of the repository. According to the spec an unsigned
  integer field is written in decimal, the illuminance is written with 2 decimal
  places, and a record ends with a line break. Where the spec is silent (the digits
  of a number, the bytes of the line break, the rounding, the floats that have no
  decimal expansion) the definitions follow the core: \<^verbatim>\<open>printNumber\<close> with base 10
  produces the digits from the last to the first; \<^verbatim>\<open>println\<close> ends the line with
  carriage return and line feed; \<^verbatim>\<open>printFloat\<close> writes \<^verbatim>\<open>nan\<close> for not-a-number,
  \<^verbatim>\<open>inf\<close> for an infinity and \<^verbatim>\<open>ovf\<close> for a magnitude above 4294967040, and otherwise
  the sign, the integer part of the magnitude plus \<open>0.5 / 10 ^ digits\<close>, the point and
  the decimals, one at a time.
\<close>

definition CRLF :: string where
  "CRLF = [CHR 0x0D, CHR 0x0A]"

definition digit_char :: "nat \<Rightarrow> char" where
  "digit_char c = char_of (48 + c)"

function printNumber_loop :: "nat \<Rightarrow> string \<Rightarrow> string" where
  "printNumber_loop n str =
     (let c = n mod 10;
          n' = n div 10;
          str' = digit_char c # str
      in if n' \<noteq> 0 then printNumber_loop n' str' else str')"
  by pat_completeness auto
termination
  by (relation "measure (\<lambda>(n, str). n)") auto

definition printNumber :: "nat \<Rightarrow> string" where
  "printNumber n = printNumber_loop n []"

fun rounding :: "nat \<Rightarrow> rat" where
  "rounding 0 = 1 / 2"
| "rounding (Suc i) = rounding i / 10"

fun frac_digits :: "nat \<Rightarrow> rat \<Rightarrow> string" where
  "frac_digits 0 remainder = []"
| "frac_digits (Suc digits) remainder =
     (let r10 = remainder * 10;
          toPrint = nat \<lfloor>r10\<rfloor>
      in printNumber toPrint @ frac_digits digits (r10 - of_nat toPrint))"

definition printFloat :: "cfloat \<Rightarrow> nat \<Rightarrow> string" where
  "printFloat x digits =
     (case x of
        NaN \<Rightarrow> ''nan''
      | PosInf \<Rightarrow> ''inf''
      | NegInf \<Rightarrow> ''inf''
      | Num q \<Rightarrow>
          if q > 4294967040 then ''ovf''
          else if q < - 4294967040 then ''ovf''
          else
            let sign = (if q < 0 then ''-'' else '''');
                number = (if q < 0 then - q else q) + rounding digits;
                int_part = nat \<lfloor>number\<rfloor>;
                remainder = number - of_nat int_part
            in sign @ printNumber int_part @ (if digits > 0 then ''.'' else '''')
                 @ frac_digits digits remainder)"

definition Serial_print_str :: "string \<Rightarrow> state \<Rightarrow> state" where
  "Serial_print_str str = emit (SerialWrite str)"

definition Serial_println_str :: "string \<Rightarrow> state \<Rightarrow> state" where
  "Serial_println_str str = emit (SerialWrite (str @ CRLF))"

definition Serial_print_uint :: "nat \<Rightarrow> state \<Rightarrow> state" where
  "Serial_print_uint n = emit (SerialWrite (printNumber n))"

definition Serial_println_float :: "cfloat \<Rightarrow> nat \<Rightarrow> state \<Rightarrow> state" where
  "Serial_println_float x digits = emit (SerialWrite (printFloat x digits @ CRLF))"

text \<open>The bytes on the serial line: what the \<open>SerialWrite\<close> events carry, in order.\<close>

fun written :: "event \<Rightarrow> string" where
  "written (SerialWrite str) = str"
| "written _ = []"

definition serial_bytes :: "event list \<Rightarrow> string" where
  "serial_bytes evs = concat (map written evs)"

definition serial_out :: "state \<Rightarrow> string" where
  "serial_out s = serial_bytes (trace s)"

subsection \<open>The spectral sensor driver\<close>

text \<open>
  Modelled from the spec: the driver \<^verbatim>\<open>Adafruit_AS726x\<close> is not part of the repository.
  \<^verbatim>\<open>readRawValues(buf)\<close> reads all six channel values as one batch: it stores the
  value of each channel at the channel's index of the buffer.
\<close>

definition readRawValues :: "(channels \<Rightarrow> uint16_t) \<Rightarrow> uint16_t list \<Rightarrow> uint16_t list" where
  "readRawValues rd buf = fold (\<lambda>ch b. b[channel_index ch := rd ch]) all_channels buf"

subsection \<open>\<^verbatim>\<open>setup()\<close>\<close>

text \<open>\<^verbatim>\<open>while(!Serial);\<close> evaluates \<^verbatim>\<open>Serial\<close> until it is true; the body is empty.\<close>

partial_function (option) wait_serial :: "env \<Rightarrow> nat \<Rightarrow> state \<Rightarrow> state option" where
  "wait_serial env i s =
     (if serial_ready env i then Some (emit (SerialReady True) s)
      else wait_serial env (Suc i) (emit (SerialReady False) s))"

definition setup_fn :: "env \<Rightarrow> state \<Rightarrow> outcome" where
  "setup_fn env s0 =
     (let s1 = emit (SerialBegin 115200) s0 in
      case wait_serial env 0 s1 of
        None \<Rightarrow> Blocked s1
      | Some s2 \<Rightarrow>
          let s3 = emit WireBegin s2;
              s4 = emit PinModeLedOutput s3;
              s5 = emit (AsBegin (as_begin env)) s4
          in if \<not> as_begin env
             then Halted
               (Serial_println_str ''Error: could not connect to AS7262 (check wiring).'' s5)
             else
               let s6 = emit (BhBegin CONTINUOUS_HIGH_RES_MODE (bh_begin env)) s5 in
               if bh_begin env
               then
                 let s7 = Serial_println_str ''BH1750 ready'' s6
                 in Returned
                   (Serial_println_str ''Sensors initialized. Starting measurements...'' s7)
               else Halted
                 (Serial_println_str ''Error: could not initialize BH1750 (check wiring).'' s6))"

subsection \<open>\<^verbatim>\<open>loop()\<close>\<close>

text \<open>\<^verbatim>\<open>while(!as7262.dataReady()){ delay(5); }\<close> in cycle \<open>c\<close>, from the \<open>i\<close>-th poll on.\<close>

partial_function (option) wait_data :: "env \<Rightarrow> nat \<Rightarrow> nat \<Rightarrow> state \<Rightarrow> state option" where
  "wait_data env c i s =
     (if data_ready env c i then Some (emit (DataReady True) s)
      else wait_data env c (Suc i) (emit (Delay 5) (emit (DataReady False) s)))"

definition loop_fn :: "env \<Rightarrow> nat \<Rightarrow> state \<Rightarrow> outcome" where
  "loop_fn env c s0 =
     (let s1 = emit StartMeasurement s0 in
      case wait_data env c 0 s1 of
        None \<Rightarrow> Blocked s1
      | Some s2 \<Rightarrow>
          let s3 = emit (ReadRawValues (map (spectral env c) all_channels))
                     (s2\<lparr>sensorValues := readRawValues (spectral env c) (sensorValues s2)\<rparr>);
              temp = temperature env c;
              s4 = emit (ReadTemperature temp) s3;
              lux = readLightLevel (light_level env c);
              s5 = emit (ReadLightLevel lux) s4;
              s6 = Serial_print_str '','' (Serial_print_uint (unat temp) s5);
              s7 = Serial_print_str '',''
                     (Serial_print_uint (unat (sensorValues s6 ! channel_index AS726x_VIOLET)) s6);
              s8 = Serial_print_str '',''
                     (Serial_print_uint (unat (sensorValues s7 ! channel_index AS726x_BLUE)) s7);
              s9 = Serial_print_str '',''
                     (Serial_print_uint (unat (sensorValues s8 ! channel_index AS726x_GREEN)) s8);
              s10 = Serial_print_str '',''
                     (Serial_print_uint (unat (sensorValues s9 ! channel_index AS726x_YELLOW)) s9);
              s11 = Serial_print_str '',''
                     (Serial_print_uint (unat (sensorValues s10 ! channel_index AS726x_ORANGE)) s10);
              s12 = Serial_print_str '',''
                     (Serial_print_uint (unat (sensorValues s11 ! channel_index AS726x_RED)) s11);
              s13 = Serial_println_float lux 2 s12
          in Returned (emit (Delay 1000) s13))"

subsection \<open>The whole program\<close>

text \<open>
  The Arduino core calls \<^verbatim>\<open>setup()\<close> once and then \<^verbatim>\<open>loop()\<close> for ever. \<open>cycles env c n s\<close>
  runs at most \<open>n\<close> calls of \<^verbatim>\<open>loop()\<close>, the first of them being cycle \<open>c\<close>; \<open>run env n\<close>
  is the program from power-up to the end of its \<open>n\<close>-th cycle, or to the point where
  it halts or blocks before that.
\<close>

fun cycles :: "env \<Rightarrow> nat \<Rightarrow> nat \<Rightarrow> state \<Rightarrow> outcome" where
  "cycles env c 0 s = Returned s"
| "cycles env c (Suc n) s =
     (case loop_fn env c s of
        Returned s' \<Rightarrow> cycles env (Suc c) n s'
      | Halted s' \<Rightarrow> Halted s'
      | Blocked s' \<Rightarrow> Blocked s')"

definition run :: "env \<Rightarrow> nat \<Rightarrow> outcome" where
  "run env n =
     (case setup_fn env init_state of
        Returned s \<Rightarrow> cycles env 0 n s
      | Halted s \<Rightarrow> Halted s
      | Blocked s \<Rightarrow> Blocked s)"

fun final :: "outcome \<Rightarrow> state" where
  "final (Returned s) = s"
| "final (Halted s) = s"
| "final (Blocked s) = s"

declare wait_serial.simps [code]
declare wait_data.simps [code]
declare printNumber_loop.simps [simp del]

section \<open>Notions used to state the properties\<close>

subsection \<open>Polling\<close>

text \<open>
  \<open>first_ready env c k\<close>: in cycle \<open>c\<close> the poll number \<open>k\<close> is the first that reports
  ready. \<open>polled k s\<close> is the state after \<open>k\<close> unsuccessful iterations of the wait loop
  of \<^verbatim>\<open>loop()\<close>, started in \<open>s\<close>. \<open>first_serial\<close> and \<open>serial_polled\<close> are the same for
  the wait loop of \<^verbatim>\<open>setup()\<close>.
\<close>

definition first_ready :: "env \<Rightarrow> nat \<Rightarrow> nat \<Rightarrow> bool" where
  "first_ready env c k = (data_ready env c k \<and> list_all (\<lambda>j. \<not> data_ready env c j) [0..<k])"

definition polled :: "nat \<Rightarrow> state \<Rightarrow> state" where
  "polled k s = s\<lparr>trace := trace s @ concat (replicate k [DataReady False, Delay 5])\<rparr>"

definition first_serial :: "env \<Rightarrow> nat \<Rightarrow> bool" where
  "first_serial env k = (serial_ready env k \<and> list_all (\<lambda>j. \<not> serial_ready env j) [0..<k])"

definition serial_polled :: "nat \<Rightarrow> state \<Rightarrow> state" where
  "serial_polled k s = s\<lparr>trace := trace s @ replicate k (SerialReady False)\<rparr>"

subsection \<open>The events of \<^verbatim>\<open>setup()\<close> and of one cycle\<close>

text \<open>
  \<open>setup_prefix k\<close>: the events of \<^verbatim>\<open>setup()\<close> up to \<^verbatim>\<open>pinMode\<close>, when the serial port
  answers at its \<open>k\<close>-th poll. \<open>record_writes\<close>: the fifteen writes of lines 67 to 74.
  \<open>cycle_events env c k buf\<close>: the events of a cycle whose \<open>k\<close>-th poll is the first
  that reports ready, \<open>buf\<close> being the buffer that is printed.
\<close>

definition setup_prefix :: "nat \<Rightarrow> event list" where
  "setup_prefix k =
     SerialBegin 115200 # replicate k (SerialReady False)
       @ [SerialReady True, WireBegin, PinModeLedOutput]"

fun setup_event :: "event \<Rightarrow> bool" where
  "setup_event (SerialBegin b) = True"
| "setup_event (SerialReady b) = True"
| "setup_event WireBegin = True"
| "setup_event PinModeLedOutput = True"
| "setup_event (AsBegin b) = True"
| "setup_event (BhBegin m b) = True"
| "setup_event _ = False"

definition record_writes :: "uint8_t \<Rightarrow> uint16_t list \<Rightarrow> cfloat \<Rightarrow> event list" where
  "record_writes temp buf lux =
     [SerialWrite (printNumber (unat temp)), SerialWrite '','',
      SerialWrite (printNumber (unat (buf ! channel_index AS726x_VIOLET))), SerialWrite '','',
      SerialWrite (printNumber (unat (buf ! channel_index AS726x_BLUE))), SerialWrite '','',
      SerialWrite (printNumber (unat (buf ! channel_index AS726x_GREEN))), SerialWrite '','',
      SerialWrite (printNumber (unat (buf ! channel_index AS726x_YELLOW))), SerialWrite '','',
      SerialWrite (printNumber (unat (buf ! channel_index AS726x_ORANGE))), SerialWrite '','',
      SerialWrite (printNumber (unat (buf ! channel_index AS726x_RED))), SerialWrite '','',
      SerialWrite (printFloat lux 2 @ CRLF)]"

definition read_and_emit :: "env \<Rightarrow> nat \<Rightarrow> uint16_t list \<Rightarrow> event list" where
  "read_and_emit env c buf =
     [ReadRawValues (map (spectral env c) all_channels),
      ReadTemperature (temperature env c),
      ReadLightLevel (readLightLevel (light_level env c))]
     @ record_writes (temperature env c) buf (readLightLevel (light_level env c))
     @ [Delay 1000]"

definition cycle_events :: "env \<Rightarrow> nat \<Rightarrow> nat \<Rightarrow> uint16_t list \<Rightarrow> event list" where
  "cycle_events env c k buf =
     StartMeasurement # concat (replicate k [DataReady False, Delay 5])
       @ DataReady True # read_and_emit env c buf"

subsection \<open>Records and their fields\<close>

text \<open>
  \<open>csv_record\<close>: the bytes of one record. \<open>record_of env c\<close>: the record made of the
  readings of cycle \<open>c\<close> and of nothing else. \<open>split_on\<close> cuts a text at a separator.
\<close>

definition csv_record :: "uint8_t \<Rightarrow> uint16_t list \<Rightarrow> cfloat \<Rightarrow> string" where
  "csv_record temp vals lux = serial_bytes (record_writes temp vals lux)"

definition record_of :: "env \<Rightarrow> nat \<Rightarrow> string" where
  "record_of env c =
     csv_record (temperature env c) (map (spectral env c) all_channels) (readLightLevel (light_level env c))"

fun split_on :: "char \<Rightarrow> string \<Rightarrow> string list" where
  "split_on d [] = [[]]"
| "split_on d (ch # str) =
     (if ch = d then [] # split_on d str
      else (case split_on d str of [] \<Rightarrow> [[ch]] | f # fs \<Rightarrow> (ch # f) # fs))"

text \<open>
  An unsigned field is a non-empty text of decimal digits, \<open>dec_value\<close> is the number
  it denotes. A field with two decimals is an optional minus sign, at least one digit,
  a point and exactly two digits.
\<close>

definition is_digit :: "char \<Rightarrow> bool" where
  "is_digit ch = (48 \<le> (of_char ch :: nat) \<and> (of_char ch :: nat) \<le> 57)"

definition digit_value :: "char \<Rightarrow> nat" where
  "digit_value ch = of_char ch - 48"

definition dec_value :: "string \<Rightarrow> nat" where
  "dec_value str = foldl (\<lambda>a ch. 10 * a + digit_value ch) 0 str"

definition unsigned_field :: "string \<Rightarrow> bool" where
  "unsigned_field f = (f \<noteq> [] \<and> list_all is_digit f)"

definition integer_part :: "string \<Rightarrow> bool" where
  "integer_part str =
     (case str of
        [] \<Rightarrow> False
      | ch # ds \<Rightarrow> if ch = CHR ''-'' then unsigned_field ds else unsigned_field str)"

definition two_decimals :: "string \<Rightarrow> bool" where
  "two_decimals f =
     (case rev f of
        d2 # d1 # p # ip \<Rightarrow>
          p = CHR ''.'' \<and> is_digit d1 \<and> is_digit d2 \<and> integer_part (rev ip)
      | _ \<Rightarrow> False)"

text \<open>
  The values \<open>printFloat\<close> formats: the numbers from \<open>-4294967040\<close> to \<open>4294967040\<close>.
  \<open>hundredths q\<close> is \<open>\<bar>q\<bar>\<close> in hundredths, rounded half up.
\<close>

definition printable :: "cfloat \<Rightarrow> bool" where
  "printable x = (case x of Num q \<Rightarrow> - 4294967040 \<le> q \<and> q \<le> 4294967040 | _ \<Rightarrow> False)"

definition hundredths :: "rat \<Rightarrow> nat" where
  "hundredths q = nat \<lfloor>\<bar>q\<bar> * 100 + 1 / 2\<rfloor>"

subsection \<open>The values the calls return\<close>

text \<open>
  \<open>driver_input e\<close>: the event \<open>e\<close> is a call of a sensor driver that returns a value,
  and carries that value. \<open>inputs evs\<close> is the sequence of the values that the driver
  calls among the events \<open>evs\<close> have returned, in the order of the calls.
\<close>

fun driver_input :: "event \<Rightarrow> bool" where
  "driver_input (AsBegin b) = True"
| "driver_input (BhBegin m b) = True"
| "driver_input (DataReady b) = True"
| "driver_input (ReadRawValues vs) = True"
| "driver_input (ReadTemperature t) = True"
| "driver_input (ReadLightLevel x) = True"
| "driver_input _ = False"

definition inputs :: "event list \<Rightarrow> event list" where
  "inputs evs = filter driver_input evs"

subsection \<open>Sample inputs\<close>

text \<open>
  \<open>env_sample\<close>: the serial port is up at once, both sensors answer, every
  measurement is ready at the third poll, and the readings are those of the spec's
  scenario: temperature 24, channels 10 to 60, 123.456 lux. The other inputs are
  \<open>env_sample\<close> with the answers changed that their definitions name.
\<close>

lift_definition sample_lux :: lux_reading is "123456 / 1000"
  by simp

definition env_sample :: env where
  "env_sample =
     \<lparr>serial_ready = (\<lambda>i. True), as_begin = True, bh_begin = True,
      data_ready = (\<lambda>c i. 2 \<le> i),
      spectral = (\<lambda>c ch. case ch of AS726x_VIOLET \<Rightarrow> 10 | AS726x_BLUE \<Rightarrow> 20
         | AS726x_GREEN \<Rightarrow> 30 | AS726x_YELLOW \<Rightarrow> 40 | AS726x_ORANGE \<Rightarrow> 50 | AS726x_RED \<Rightarrow> 60),
      temperature = (\<lambda>c. 24),
      light_level = (\<lambda>c. sample_lux)\<rparr>"

definition sample_values :: "uint16_t list" where
  "sample_values = [10, 20, 30, 40, 50, 60]"

definition sample_state :: state where
  "sample_state =
     \<lparr>sensorValues = sample_values, trace = cycle_events env_sample 0 2 sample_values\<rparr>"

definition env_as_fail :: env where
  "env_as_fail = env_sample\<lparr>as_begin := False, bh_begin := False\<rparr>"

definition env_bh_fail :: env where
  "env_bh_fail = env_sample\<lparr>bh_begin := False\<rparr>"

definition env_stuck :: env where
  "env_stuck = env_sample\<lparr>data_ready := (\<lambda>c i. False)\<rparr>"

definition env_once :: env where
  "env_once = env_sample\<lparr>data_ready := (\<lambda>c i. i = 2)\<rparr>"

definition env_no_serial :: env where
  "env_no_serial = env_sample\<lparr>serial_ready := (\<lambda>i. False)\<rparr>"

section \<open>Auxiliary facts\<close>

subsection \<open>The wait loop of \<^verbatim>\<open>loop()\<close>\<close>

lemma polled_0: "polled 0 s = s" by (simp add: polled_def)

lemma polled_Suc: "polled (Suc k) s = polled k (emit (Delay 5) (emit (DataReady False) s))"
  by (simp add: polled_def emit_def)

lemma wait_data_unroll:
  "(\<forall>j<k. \<not> data_ready env c (i + j)) \<Longrightarrow> wait_data env c i s = wait_data env c (i + k) (polled k s)"
proof (induction k arbitrary: i s)
  case 0
  show ?case by (simp add: polled_0)
next
  case (Suc k)
  have "\<not> data_ready env c i" using Suc.prems by force
  then have "wait_data env c i s = wait_data env c (Suc i) (emit (Delay 5) (emit (DataReady False) s))"
    by (subst wait_data.simps) simp
  also have "\<dots> = wait_data env c (Suc i + k) (polled k (emit (Delay 5) (emit (DataReady False) s)))"
  proof (rule Suc.IH)
    show "\<forall>j<k. \<not> data_ready env c (Suc i + j)"
      using Suc.prems by (metis Suc_less_eq add_Suc_shift)
  qed
  finally show ?case by (simp add: polled_Suc)
qed

lemma wait_data_Some:
  assumes "\<forall>j<k. \<not> data_ready env c (i + j)" and "data_ready env c (i + k)"
  shows "wait_data env c i s = Some (emit (DataReady True) (polled k s))"
proof -
  have "wait_data env c i s = wait_data env c (i + k) (polled k s)"
    using assms(1) by (rule wait_data_unroll)
  also have "\<dots> = Some (emit (DataReady True) (polled k s))"
    using assms(2) by (subst wait_data.simps) simp
  finally show ?thesis .
qed

lemma wait_data_Some_ready:
  assumes "wait_data env c i s = Some s'"
  shows "\<exists>j\<ge>i. data_ready env c j"
proof (rule wait_data.raw_induct
    [where P = "\<lambda>env c i s s'. \<exists>j\<ge>i. data_ready env c j", OF _ assms])
  fix f env c i s s'
  assume IH: "\<And>env c i s s'. f env c i s = Some s' \<Longrightarrow> \<exists>j\<ge>i. data_ready env c j"
    and eq: "(if data_ready env c i then Some (emit (DataReady True) s)
              else f env c (Suc i) (emit (Delay 5) (emit (DataReady False) s))) = Some s'"
  show "\<exists>j\<ge>i. data_ready env c j"
  proof (cases "data_ready env c i")
    case True then show ?thesis by blast
  next
    case False
    with eq have "f env c (Suc i) (emit (Delay 5) (emit (DataReady False) s)) = Some s'" by simp
    from IH[OF this] obtain j where "j \<ge> Suc i" "data_ready env c j" by blast
    then show ?thesis by (meson Suc_leD)
  qed
qed

lemma wait_data_None_iff:
  "wait_data env c i s = None \<longleftrightarrow> (\<forall>j\<ge>i. \<not> data_ready env c j)"
proof
  assume "wait_data env c i s = None"
  show "\<forall>j\<ge>i. \<not> data_ready env c j"
  proof (rule ccontr)
    assume "\<not> (\<forall>j\<ge>i. \<not> data_ready env c j)"
    then have ex: "\<exists>k. data_ready env c (i + k)" by (metis le_Suc_ex)
    define k where "k = (LEAST k. data_ready env c (i + k))"
    have rk: "data_ready env c (i + k)" unfolding k_def using ex by (rule LeastI_ex)
    have "\<forall>j<k. \<not> data_ready env c (i + j)" unfolding k_def using not_less_Least by blast
    from wait_data_Some[OF this rk] \<open>wait_data env c i s = None\<close> show False by simp
  qed
next
  assume "\<forall>j\<ge>i. \<not> data_ready env c j"
  then show "wait_data env c i s = None"
    using wait_data_Some_ready by (metis not_Some_eq)
qed

lemma loop_fn_after_wait:
  assumes "wait_data env c 0 (emit StartMeasurement s) = Some s2"
  shows "loop_fn env c s =
     Returned \<lparr>sensorValues = readRawValues (spectral env c) (sensorValues s2),
               trace = trace s2 @ read_and_emit env c (readRawValues (spectral env c) (sensorValues s2))\<rparr>"
  using assms
  by (simp add: loop_fn_def Let_def emit_def Serial_print_str_def Serial_print_uint_def
      Serial_println_float_def read_and_emit_def record_writes_def)

lemma loop_fn_blocked:
  assumes "wait_data env c 0 (emit StartMeasurement s) = None"
  shows "loop_fn env c s = Blocked (emit StartMeasurement s)"
  using assms by (simp add: loop_fn_def Let_def)

lemma readRawValues_full:
  assumes "length buf = AS726x_NUM_CHANNELS"
  shows "readRawValues rd buf = map rd all_channels"
proof -
  from assms obtain a b c d e f where "buf = [a, b, c, d, e, f]"
    by (auto simp: AS726x_NUM_CHANNELS_def length_Suc_conv eval_nat_numeral)
  then show ?thesis by (simp add: readRawValues_def all_channels_def)
qed

subsection \<open>Printing numbers\<close>

lemma of_char_digit_char: "c < 10 \<Longrightarrow> (of_char (digit_char c) :: nat) = 48 + c"
  by (simp add: digit_char_def)

lemma is_digit_digit_char: "c < 10 \<Longrightarrow> is_digit (digit_char c)"
  by (simp add: is_digit_def of_char_digit_char)

lemma digit_value_digit_char: "c < 10 \<Longrightarrow> digit_value (digit_char c) = c"
  by (simp add: digit_value_def of_char_digit_char)

lemma printNumber_loop_acc: "printNumber_loop n str = printNumber_loop n [] @ str"
proof (induction n arbitrary: str rule: less_induct)
  case (less n)
  show ?case
  proof (cases "n div 10 = 0")
    case True
    then show ?thesis
      by (simp add: printNumber_loop.simps[of n] Let_def)
  next
    case False
    then have lt: "n div 10 < n" by simp
    show ?thesis
      using False less[OF lt, of "digit_char (n mod 10) # str"]
        less[OF lt, of "[digit_char (n mod 10)]"]
      by (simp add: printNumber_loop.simps[of n] Let_def)
  qed
qed

lemma printNumber_small: "n < 10 \<Longrightarrow> printNumber n = [digit_char n]"
  by (simp add: printNumber_def printNumber_loop.simps[of n] Let_def)

lemma printNumber_large:
  "10 \<le> n \<Longrightarrow> printNumber n = printNumber (n div 10) @ [digit_char (n mod 10)]"
proof -
  assume "10 \<le> n"
  then have nz: "n div 10 \<noteq> 0" by simp
  have "printNumber n = printNumber_loop (n div 10) [digit_char (n mod 10)]"
    using nz by (simp add: printNumber_def printNumber_loop.simps[of n] Let_def)
  also have "\<dots> = printNumber (n div 10) @ [digit_char (n mod 10)]"
    unfolding printNumber_def by (rule printNumber_loop_acc)
  finally show ?thesis .
qed

lemma printNumber_unsigned: "unsigned_field (printNumber n)"
proof (induction n rule: less_induct)
  case (less n)
  show ?case
  proof (cases "n < 10")
    case True
    then show ?thesis by (simp add: printNumber_small unsigned_field_def is_digit_digit_char)
  next
    case False
    then have "n div 10 < n" by simp
    from less[OF this] False show ?thesis
      by (simp add: printNumber_large unsigned_field_def is_digit_digit_char)
  qed
qed

lemma dec_value_snoc: "dec_value (str @ [ch]) = 10 * dec_value str + digit_value ch"
  by (simp add: dec_value_def)

lemma dec_value_printNumber: "dec_value (printNumber n) = n"
proof (induction n rule: less_induct)
  case (less n)
  show ?case
  proof (cases "n < 10")
    case True
    then show ?thesis by (simp add: printNumber_small dec_value_def digit_value_digit_char)
  next
    case False
    then have "n div 10 < n" by simp
    from less[OF this] False show ?thesis
      by (simp add: printNumber_large dec_value_snoc digit_value_digit_char)
  qed
qed

lemma is_digit_not_sep:
  "is_digit ch \<Longrightarrow> ch \<noteq> CHR '','' \<and> ch \<noteq> CHR ''.'' \<and> ch \<noteq> CHR ''-'' \<and> ch \<noteq> CHR 0x0D \<and> ch \<noteq> CHR 0x0A"
  by (auto simp: is_digit_def)

subsection \<open>Printing floats with two decimals\<close>

lemma floor_scale:
  fixes y :: rat
  shows "\<lfloor>of_int k * y\<rfloor> = k * \<lfloor>y\<rfloor> + \<lfloor>of_int k * (y - of_int \<lfloor>y\<rfloor>)\<rfloor>"
proof -
  have "of_int k * y = of_int k * (y - of_int \<lfloor>y\<rfloor>) + of_int (k * \<lfloor>y\<rfloor>)"
    by (simp add: algebra_simps)
  then have "\<lfloor>of_int k * y\<rfloor> = \<lfloor>of_int k * (y - of_int \<lfloor>y\<rfloor>) + of_int (k * \<lfloor>y\<rfloor>)\<rfloor>"
    by simp
  also have "\<dots> = \<lfloor>of_int k * (y - of_int \<lfloor>y\<rfloor>)\<rfloor> + k * \<lfloor>y\<rfloor>"
    by (simp only: floor_add_int)
  finally show ?thesis by simp
qed

lemma floor_ten_bounds:
  fixes r :: rat
  assumes "0 \<le> r" and "r < 1"
  shows "0 \<le> \<lfloor>r * 10\<rfloor>" and "\<lfloor>r * 10\<rfloor> < 10"
proof -
  show "0 \<le> \<lfloor>r * 10\<rfloor>" using assms by simp
  have "r * 10 < 10" using assms by simp
  then show "\<lfloor>r * 10\<rfloor> < 10" by (simp add: floor_less_iff)
qed

lemma frac_digits_step:
  assumes "0 \<le> r" and "r < 1"
  shows "frac_digits (Suc n) r =
     digit_char (nat \<lfloor>r * 10\<rfloor>) # frac_digits n (r * 10 - of_int \<lfloor>r * 10\<rfloor>)"
proof -
  have "nat \<lfloor>r * 10\<rfloor> < 10" using floor_ten_bounds[OF assms] by linarith
  moreover have "(of_nat (nat \<lfloor>r * 10\<rfloor>) :: rat) = of_int \<lfloor>r * 10\<rfloor>"
    using floor_ten_bounds(1)[OF assms] by simp
  ultimately show ?thesis by (simp add: Let_def printNumber_small)
qed

lemma frac_digits_two:
  assumes "0 \<le> r" and "r < 1"
  shows "frac_digits 2 r =
     [digit_char (nat (\<lfloor>r * 100\<rfloor> div 10)), digit_char (nat (\<lfloor>r * 100\<rfloor> mod 10))]"
proof -
  define d1 where "d1 = \<lfloor>r * 10\<rfloor>"
  define r1 where "r1 = r * 10 - of_int d1"
  define d2 where "d2 = \<lfloor>r1 * 10\<rfloor>"
  have r1: "0 \<le> r1" "r1 < 1" unfolding r1_def d1_def by linarith+
  have d1: "0 \<le> d1" "d1 < 10" unfolding d1_def using floor_ten_bounds[OF assms] by simp_all
  have d2: "0 \<le> d2" "d2 < 10" unfolding d2_def using floor_ten_bounds[OF r1] by simp_all
  have "\<lfloor>of_int 10 * (r * 10)\<rfloor> = 10 * \<lfloor>r * 10\<rfloor> + \<lfloor>of_int 10 * (r * 10 - of_int \<lfloor>r * 10\<rfloor>)\<rfloor>"
    by (rule floor_scale)
  then have m: "\<lfloor>r * 100\<rfloor> = 10 * d1 + d2"
    by (simp add: d1_def d2_def r1_def mult.commute)
  have "frac_digits 2 r = frac_digits (Suc (Suc 0)) r" by (simp add: numeral_2_eq_2)
  also have "\<dots> = digit_char (nat d1) # frac_digits (Suc 0) r1"
    unfolding d1_def r1_def by (rule frac_digits_step[OF assms])
  also have "frac_digits (Suc 0) r1 = digit_char (nat d2) # frac_digits 0 (r1 * 10 - of_int \<lfloor>r1 * 10\<rfloor>)"
    unfolding d2_def by (rule frac_digits_step[OF r1])
  finally have "frac_digits 2 r = [digit_char (nat d1), digit_char (nat d2)]" by simp
  moreover have "\<lfloor>r * 100\<rfloor> div 10 = d1" using m d1 d2 by simp
  moreover have "\<lfloor>r * 100\<rfloor> mod 10 = d2" using m d1 d2 by simp
  ultimately show ?thesis by simp
qed

lemma rounding_2: "rounding 2 = 1 / 200"
  by (simp add: numeral_2_eq_2)

lemma print_nonneg_two:
  fixes x :: rat
  assumes "0 \<le> x"
  defines "m \<equiv> nat \<lfloor>x * 100\<rfloor>"
  shows "printNumber (nat \<lfloor>x\<rfloor>) @ ''.'' @ frac_digits 2 (x - of_nat (nat \<lfloor>x\<rfloor>)) =
         printNumber (m div 100) @ ''.'' @ [digit_char (m mod 100 div 10), digit_char (m mod 10)]"
proof -
  define a where "a = \<lfloor>x\<rfloor>"
  define r where "r = x - of_int a"
  define t where "t = \<lfloor>r * 100\<rfloor>"
  have a0: "0 \<le> a" unfolding a_def using assms(1) by simp
  have r: "0 \<le> r" "r < 1" unfolding r_def a_def by linarith+
  have "r * 100 < 100" using r by simp
  then have t: "0 \<le> t" "t < 100" unfolding t_def using r by (simp_all add: floor_less_iff)
  have "\<lfloor>of_int 100 * x\<rfloor> = 100 * \<lfloor>x\<rfloor> + \<lfloor>of_int 100 * (x - of_int \<lfloor>x\<rfloor>)\<rfloor>"
    by (rule floor_scale)
  then have M: "\<lfloor>x * 100\<rfloor> = 100 * a + t"
    by (simp add: a_def r_def t_def mult.commute)
  have m: "m = nat (100 * a + t)" unfolding m_def M ..
  have mi: "int m = 100 * a + t" unfolding m using a0 t by simp
  have "int (m div 100) = a" using a0 t by (simp add: zdiv_int mi)
  then have e1: "m div 100 = nat a" by linarith
  have "int (m mod 100) = t" using a0 t by (simp add: zmod_int mi)
  then have mt: "m mod 100 = nat t" by linarith
  have "int (m mod 100 div 10) = t div 10" using \<open>int (m mod 100) = t\<close> by (simp add: zdiv_int)
  then have e2: "m mod 100 div 10 = nat (t div 10)" by linarith
  have "m mod 10 = m mod 100 mod 10" by (simp add: mod_mod_cancel)
  then have "int (m mod 10) = t mod 10" using \<open>int (m mod 100) = t\<close> by (simp add: zmod_int)
  then have e3: "m mod 10 = nat (t mod 10)" by linarith
  have "(of_nat (nat \<lfloor>x\<rfloor>) :: rat) = of_int a" using a0 by (simp add: a_def)
  then have "frac_digits 2 (x - of_nat (nat \<lfloor>x\<rfloor>)) = frac_digits 2 r" by (simp add: r_def)
  also have "\<dots> = [digit_char (nat (t div 10)), digit_char (nat (t mod 10))]"
    unfolding t_def by (rule frac_digits_two[OF r])
  finally show ?thesis by (simp add: e1 e2 e3 a_def)
qed

lemma printFloat_two:
  assumes "- 4294967040 \<le> q" and "q \<le> 4294967040"
  shows "printFloat (Num q) 2 =
     (if q < 0 then ''-'' else '''') @ printNumber (hundredths q div 100) @ ''.''
       @ [digit_char (hundredths q mod 100 div 10), digit_char (hundredths q mod 10)]"
proof -
  define x where "x = \<bar>q\<bar> + 1 / 200"
  have x0: "0 \<le> x" unfolding x_def by simp
  have h: "hundredths q = nat \<lfloor>x * 100\<rfloor>"
    by (simp add: hundredths_def x_def algebra_simps)
  have ab: "(if q < 0 then - q else q) = \<bar>q\<bar>" by simp
  have "printFloat (Num q) 2 =
      (if q < 0 then ''-'' else '''') @
        (printNumber (nat \<lfloor>x\<rfloor>) @ ''.'' @ frac_digits 2 (x - of_nat (nat \<lfloor>x\<rfloor>)))"
    using assms unfolding printFloat_def x_def
    by (simp add: Let_def rounding_2 ab del: frac_digits.simps)
  then show ?thesis
    unfolding print_nonneg_two[OF x0] h by simp
qed

subsection \<open>Fields and records\<close>

lemma split_on_field: "d \<notin> set a \<Longrightarrow> split_on d a = [a]"
  by (induction a) auto

lemma split_on_append: "d \<notin> set a \<Longrightarrow> split_on d (a @ d # rest) = a # split_on d rest"
  by (induction a) auto

lemma unsigned_field_no_sep:
  assumes "unsigned_field f"
  shows "CHR '','' \<notin> set f" and "CHR 0x0D \<notin> set f" and "CHR 0x0A \<notin> set f"
  using assms is_digit_not_sep by (auto simp: unsigned_field_def list_all_iff)

lemma printable_readLightLevel: "printable (readLightLevel r)"
proof -
  have "- 2 \<le> Rep_lux_reading r \<and> Rep_lux_reading r \<le> 109225 / 2"
    using Rep_lux_reading[of r] by simp
  then show ?thesis by (simp add: readLightLevel_def printable_def)
qed

lemma not_printable_text: "\<not> printable x \<Longrightarrow> printFloat x d \<in> {''nan'', ''inf'', ''ovf''}"
  by (cases x) (auto simp: printable_def printFloat_def)

lemma printable_two_decimals:
  assumes "printable x"
  shows "two_decimals (printFloat x 2)"
proof -
  from assms obtain q where x: "x = Num q" and q: "- 4294967040 \<le> q" "q \<le> 4294967040"
    by (cases x) (auto simp: printable_def)
  have u: "unsigned_field (printNumber (hundredths q div 100))" by (rule printNumber_unsigned)
  have d1: "is_digit (digit_char (hundredths q mod 100 div 10))"
    by (rule is_digit_digit_char) simp
  have d2: "is_digit (digit_char (hundredths q mod 10))"
    by (rule is_digit_digit_char) simp
  have ne: "printNumber (hundredths q div 100) \<noteq> []" using u by (simp add: unsigned_field_def)
  have ip: "integer_part ((if q < 0 then ''-'' else '''') @ printNumber (hundredths q div 100))"
  proof (cases "q < 0")
    case True
    then show ?thesis using u by (simp add: integer_part_def)
  next
    case False
    obtain ch ds where cd: "printNumber (hundredths q div 100) = ch # ds"
      using ne by (cases "printNumber (hundredths q div 100)") auto
    have "is_digit ch" using u cd by (simp add: unsigned_field_def)
    then have "ch \<noteq> CHR ''-''" using is_digit_not_sep by blast
    then show ?thesis using False u cd by (simp add: integer_part_def)
  qed
  show ?thesis
    unfolding x printFloat_two[OF q] two_decimals_def using ip d1 d2 by simp
qed

lemma printFloat_no_sep:
  "CHR '','' \<notin> set (printFloat x 2) \<and> CHR 0x0D \<notin> set (printFloat x 2)
     \<and> CHR 0x0A \<notin> set (printFloat x 2)"
proof (cases "printable x")
  case False
  from not_printable_text[OF this, of 2] show ?thesis by auto
next
  case True
  then obtain q where x: "x = Num q" and q: "- 4294967040 \<le> q" "q \<le> 4294967040"
    by (cases x) (auto simp: printable_def)
  have u: "unsigned_field (printNumber (hundredths q div 100))" by (rule printNumber_unsigned)
  have d1: "is_digit (digit_char (hundredths q mod 100 div 10))"
    by (rule is_digit_digit_char) simp
  have d2: "is_digit (digit_char (hundredths q mod 10))"
    by (rule is_digit_digit_char) simp
  show ?thesis
    unfolding x printFloat_two[OF q]
    using unsigned_field_no_sep[OF u] is_digit_not_sep[OF d1] is_digit_not_sep[OF d2]
    by auto
qed

lemma serial_bytes_append: "serial_bytes (xs @ ys) = serial_bytes xs @ serial_bytes ys"
  by (simp add: serial_bytes_def)

lemma csv_record_eq:
  "csv_record temp vals lux =
     printNumber (unat temp) @ '','' @
     printNumber (unat (vals ! channel_index AS726x_VIOLET)) @ '','' @
     printNumber (unat (vals ! channel_index AS726x_BLUE)) @ '','' @
     printNumber (unat (vals ! channel_index AS726x_GREEN)) @ '','' @
     printNumber (unat (vals ! channel_index AS726x_YELLOW)) @ '','' @
     printNumber (unat (vals ! channel_index AS726x_ORANGE)) @ '','' @
     printNumber (unat (vals ! channel_index AS726x_RED)) @ '','' @
     printFloat lux 2 @ CRLF"
  by (simp add: csv_record_def record_writes_def serial_bytes_def)

subsection \<open>The outcome of a cycle\<close>

lemma first_ready_iff:
  "first_ready env c k \<longleftrightarrow> data_ready env c k \<and> (\<forall>j<k. \<not> data_ready env c j)"
  by (auto simp: first_ready_def list_all_iff)

lemma first_ready_ex:
  assumes "data_ready env c j"
  shows "\<exists>k. first_ready env c k"
proof -
  define k where "k = (LEAST k. data_ready env c k)"
  have "data_ready env c k" unfolding k_def using assms by (rule LeastI)
  moreover have "\<forall>j<k. \<not> data_ready env c j" unfolding k_def using not_less_Least by blast
  ultimately show ?thesis unfolding first_ready_iff by blast
qed

lemma wait_data_first:
  assumes "first_ready env c k"
  shows "wait_data env c 0 s = Some (emit (DataReady True) (polled k s))"
  using assms wait_data_Some[of k env c 0 s] by (simp add: first_ready_iff)

lemma loop_fn_ready:
  assumes "first_ready env c k"
  shows "loop_fn env c s =
     Returned \<lparr>sensorValues = readRawValues (spectral env c) (sensorValues s),
       trace = trace s @ cycle_events env c k (readRawValues (spectral env c) (sensorValues s))\<rparr>"
  unfolding loop_fn_after_wait[OF wait_data_first[OF assms]]
  by (simp add: emit_def polled_def cycle_events_def)

lemma loop_fn_never:
  assumes "\<forall>j. \<not> data_ready env c j"
  shows "loop_fn env c s = Blocked (emit StartMeasurement s)"
proof -
  have "wait_data env c 0 (emit StartMeasurement s) = None"
    using assms by (simp add: wait_data_None_iff)
  then show ?thesis by (rule loop_fn_blocked)
qed

lemma loop_fn_cases:
  obtains (ready) k where "first_ready env c k"
    and "loop_fn env c s =
       Returned \<lparr>sensorValues = readRawValues (spectral env c) (sensorValues s),
         trace = trace s @ cycle_events env c k (readRawValues (spectral env c) (sensorValues s))\<rparr>"
  | (never) "\<forall>j. \<not> data_ready env c j" and "loop_fn env c s = Blocked (emit StartMeasurement s)"
proof (cases "\<exists>j. data_ready env c j")
  case True
  then obtain k where "first_ready env c k" using first_ready_ex by blast
  then show ?thesis using loop_fn_ready ready by blast
next
  case False
  then show ?thesis using loop_fn_never never by blast
qed

lemma loop_fn_ReturnedD:
  assumes "loop_fn env c s = Returned s'"
  obtains k where "first_ready env c k"
    and "s' = \<lparr>sensorValues = readRawValues (spectral env c) (sensorValues s),
         trace = trace s @ cycle_events env c k (readRawValues (spectral env c) (sensorValues s))\<rparr>"
  using assms by (cases rule: loop_fn_cases[of env c s]) auto

subsection \<open>The outcome of \<^verbatim>\<open>setup()\<close>\<close>

lemma serial_polled_0: "serial_polled 0 s = s" by (simp add: serial_polled_def)

lemma serial_polled_Suc: "serial_polled (Suc k) s = serial_polled k (emit (SerialReady False) s)"
  by (simp add: serial_polled_def emit_def)

lemma wait_serial_unroll:
  "(\<forall>j<k. \<not> serial_ready env (i + j)) \<Longrightarrow>
     wait_serial env i s = wait_serial env (i + k) (serial_polled k s)"
proof (induction k arbitrary: i s)
  case 0
  show ?case by (simp add: serial_polled_0)
next
  case (Suc k)
  have "\<not> serial_ready env i" using Suc.prems by force
  then have "wait_serial env i s = wait_serial env (Suc i) (emit (SerialReady False) s)"
    by (subst wait_serial.simps) simp
  also have "\<dots> = wait_serial env (Suc i + k) (serial_polled k (emit (SerialReady False) s))"
  proof (rule Suc.IH)
    show "\<forall>j<k. \<not> serial_ready env (Suc i + j)"
      using Suc.prems by (metis Suc_less_eq add_Suc_shift)
  qed
  finally show ?case by (simp add: serial_polled_Suc)
qed

lemma wait_serial_first:
  assumes "first_serial env k"
  shows "wait_serial env 0 s = Some (emit (SerialReady True) (serial_polled k s))"
proof -
  have a: "\<forall>j<k. \<not> serial_ready env (0 + j)" and b: "serial_ready env (0 + k)"
    using assms by (auto simp: first_serial_def list_all_iff)
  have "wait_serial env 0 s = wait_serial env (0 + k) (serial_polled k s)"
    using a by (rule wait_serial_unroll)
  also have "\<dots> = Some (emit (SerialReady True) (serial_polled k s))"
    using b by (subst wait_serial.simps) simp
  finally show ?thesis .
qed

lemma wait_serial_Some_ready:
  assumes "wait_serial env i s = Some s'"
  shows "\<exists>j\<ge>i. serial_ready env j"
proof (rule wait_serial.raw_induct
    [where P = "\<lambda>env i s s'. \<exists>j\<ge>i. serial_ready env j", OF _ assms])
  fix f env i s s'
  assume IH: "\<And>env i s s'. f env i s = Some s' \<Longrightarrow> \<exists>j\<ge>i. serial_ready env j"
    and eq: "(if serial_ready env i then Some (emit (SerialReady True) s)
              else f env (Suc i) (emit (SerialReady False) s)) = Some s'"
  show "\<exists>j\<ge>i. serial_ready env j"
  proof (cases "serial_ready env i")
    case True then show ?thesis by blast
  next
    case False
    with eq have "f env (Suc i) (emit (SerialReady False) s) = Some s'" by simp
    from IH[OF this] obtain j where "j \<ge> Suc i" "serial_ready env j" by blast
    then show ?thesis by (meson Suc_leD)
  qed
qed

lemma first_serial_ex:
  assumes "serial_ready env j"
  shows "\<exists>k. first_serial env k"
proof -
  define k where "k = (LEAST k. serial_ready env k)"
  have "serial_ready env k" unfolding k_def using assms by (rule LeastI)
  moreover have "\<forall>j<k. \<not> serial_ready env j" unfolding k_def using not_less_Least by blast
  ultimately show ?thesis unfolding first_serial_def list_all_iff by auto
qed

lemma wait_serial_never:
  assumes "\<forall>j. \<not> serial_ready env j"
  shows "wait_serial env i s = None"
  using assms wait_serial_Some_ready by (metis not_Some_eq)

lemma setup_fn_blocked:
  assumes "\<forall>j. \<not> serial_ready env j"
  shows "setup_fn env s = Blocked (emit (SerialBegin 115200) s)"
  by (simp add: setup_fn_def Let_def wait_serial_never[OF assms])

lemma setup_fn_as_fail:
  assumes "first_serial env k" and "\<not> as_begin env"
  shows "setup_fn env s =
     Halted \<lparr>sensorValues = sensorValues s,
       trace = trace s @ setup_prefix k
         @ [AsBegin False,
            SerialWrite (''Error: could not connect to AS7262 (check wiring).'' @ CRLF)]\<rparr>"
  using assms(2)
  by (simp add: setup_fn_def Let_def wait_serial_first[OF assms(1)] emit_def serial_polled_def
      Serial_println_str_def setup_prefix_def)

lemma setup_fn_bh_fail:
  assumes "first_serial env k" and "as_begin env" and "\<not> bh_begin env"
  shows "setup_fn env s =
     Halted \<lparr>sensorValues = sensorValues s,
       trace = trace s @ setup_prefix k
         @ [AsBegin True, BhBegin CONTINUOUS_HIGH_RES_MODE False,
            SerialWrite (''Error: could not initialize BH1750 (check wiring).'' @ CRLF)]\<rparr>"
  using assms(2,3)
  by (simp add: setup_fn_def Let_def wait_serial_first[OF assms(1)] emit_def serial_polled_def
      Serial_println_str_def setup_prefix_def)

lemma setup_fn_ok:
  assumes "first_serial env k" and "as_begin env" and "bh_begin env"
  shows "setup_fn env s =
     Returned \<lparr>sensorValues = sensorValues s,
       trace = trace s @ setup_prefix k
         @ [AsBegin True, BhBegin CONTINUOUS_HIGH_RES_MODE True,
            SerialWrite (''BH1750 ready'' @ CRLF),
            SerialWrite (''Sensors initialized. Starting measurements...'' @ CRLF)]\<rparr>"
  using assms(2,3)
  by (simp add: setup_fn_def Let_def wait_serial_first[OF assms(1)] emit_def serial_polled_def
      Serial_println_str_def setup_prefix_def)

subsection \<open>The serial output of a run\<close>

lemma serial_bytes_setup_prefix: "serial_bytes (setup_prefix k) = []"
  by (induction k) (simp_all add: setup_prefix_def serial_bytes_def)

lemma serial_bytes_polls: "serial_bytes (concat (replicate k [DataReady False, Delay 5])) = []"
  by (induction k) (simp_all add: serial_bytes_def)

lemma serial_bytes_read_and_emit:
  "serial_bytes (read_and_emit env c buf) = csv_record (temperature env c) buf (readLightLevel (light_level env c))"
  by (simp add: read_and_emit_def serial_bytes_append csv_record_def) (simp add: serial_bytes_def)

lemma serial_bytes_cycle_events:
  "serial_bytes (cycle_events env c k buf) = csv_record (temperature env c) buf (readLightLevel (light_level env c))"
proof -
  have "cycle_events env c k buf =
      [StartMeasurement] @ concat (replicate k [DataReady False, Delay 5])
        @ [DataReady True] @ read_and_emit env c buf"
    by (simp add: cycle_events_def)
  then show ?thesis
    by (simp only: serial_bytes_append serial_bytes_polls serial_bytes_read_and_emit)
       (simp add: serial_bytes_def)
qed

lemma length_readRawValues: "length (readRawValues rd buf) = length buf"
proof -
  have "length (fold (\<lambda>ch b. b[channel_index ch := rd ch]) chs buf) = length buf" for chs
    by (induction chs arbitrary: buf) simp_all
  then show ?thesis by (simp add: readRawValues_def)
qed

lemma not_setup_event_cycle: "list_all (\<lambda>e. \<not> setup_event e) (cycle_events env c k buf)"
proof -
  have "list_all (\<lambda>e. \<not> setup_event e) (concat (replicate k [DataReady False, Delay 5]))"
    by (induction k) simp_all
  then show ?thesis
    by (simp add: cycle_events_def read_and_emit_def record_writes_def)
qed

lemma cycles_progress:
  assumes "length (sensorValues s) = AS726x_NUM_CHANNELS"
  shows "\<exists>m evs. m \<le> n \<and> trace (final (cycles env c n s)) = trace s @ evs
      \<and> list_all (\<lambda>e. \<not> setup_event e) evs
      \<and> serial_bytes evs = concat (map (record_of env) [c..<c + m])
      \<and> (m = n \<longleftrightarrow> (\<exists>s'. cycles env c n s = Returned s'))
      \<and> (m < n \<longrightarrow> cycles env c n s = Blocked (final (cycles env c n s))
            \<and> (\<forall>j. \<not> data_ready env (c + m) j))"
  using assms
proof (induction n arbitrary: c s)
  case 0
  show ?case by (simp add: serial_bytes_def)
next
  case (Suc n)
  show ?case
  proof (cases rule: loop_fn_cases[of env c s])
    case never
    have "cycles env c (Suc n) s = Blocked (emit StartMeasurement s)"
      by (simp add: never(2))
    then show ?thesis using never(1)
      by (intro exI[of _ 0] exI[of _ "[StartMeasurement]"]) (simp add: emit_def serial_bytes_def)
  next
    case (ready k)
    define buf where "buf = readRawValues (spectral env c) (sensorValues s)"
    define s1 where "s1 = \<lparr>sensorValues = buf, trace = trace s @ cycle_events env c k buf\<rparr>"
    have l: "loop_fn env c s = Returned s1" using ready(2) by (simp add: s1_def buf_def)
    have buf: "buf = map (spectral env c) all_channels"
      unfolding buf_def using Suc.prems by (rule readRawValues_full)
    have len: "length (sensorValues s1) = AS726x_NUM_CHANNELS"
      using Suc.prems by (simp add: s1_def buf_def length_readRawValues)
    from Suc.IH[OF len, of "Suc c"] obtain m evs where
      m: "m \<le> n" and tr: "trace (final (cycles env (Suc c) n s1)) = trace s1 @ evs"
      and ns: "list_all (\<lambda>e. \<not> setup_event e) evs"
      and sb: "serial_bytes evs = concat (map (record_of env) [Suc c..<Suc c + m])"
      and ret: "m = n \<longleftrightarrow> (\<exists>s'. cycles env (Suc c) n s1 = Returned s')"
      and blk: "m < n \<longrightarrow> cycles env (Suc c) n s1 = Blocked (final (cycles env (Suc c) n s1))
            \<and> (\<forall>j. \<not> data_ready env (Suc c + m) j)"
      by blast
    have c: "cycles env c (Suc n) s = cycles env (Suc c) n s1" by (simp add: l)
    have rec: "serial_bytes (cycle_events env c k buf) = record_of env c"
      by (simp add: serial_bytes_cycle_events record_of_def buf)
    have up: "[c..<c + Suc m] = c # [Suc c..<Suc c + m]" by (simp add: upt_rec)
    show ?thesis
    proof (intro exI[of _ "Suc m"] exI[of _ "cycle_events env c k buf @ evs"] conjI)
      show "Suc m \<le> Suc n" using m by simp
      show "trace (final (cycles env c (Suc n) s)) = trace s @ cycle_events env c k buf @ evs"
        unfolding c tr by (simp add: s1_def)
      show "list_all (\<lambda>e. \<not> setup_event e) (cycle_events env c k buf @ evs)"
        using ns not_setup_event_cycle by simp
      show "serial_bytes (cycle_events env c k buf @ evs) = concat (map (record_of env) [c..<c + Suc m])"
        by (simp only: serial_bytes_append rec sb up) simp
      show "(Suc m = Suc n) = (\<exists>s'. cycles env c (Suc n) s = Returned s')"
        unfolding c using ret by simp
      show "Suc m < Suc n \<longrightarrow> cycles env c (Suc n) s = Blocked (final (cycles env c (Suc n) s))
            \<and> (\<forall>j. \<not> data_ready env (c + Suc m) j)"
        unfolding c using blk by simp
    qed
  qed
qed

subsection \<open>The sample inputs\<close>

lemma length_init: "length (sensorValues init_state) = AS726x_NUM_CHANNELS"
  by (simp add: init_state_def)

lemma sample_first_ready: "first_ready env_sample c 2"
  by (simp add: first_ready_iff env_sample_def)

lemma sample_spectral: "map (spectral env_sample c) all_channels = sample_values"
  by (simp add: env_sample_def all_channels_def sample_values_def)

lemma sample_light: "readLightLevel (light_level env_sample c) = Num (123456 / 1000)"
  by (simp add: env_sample_def readLightLevel_def sample_lux.rep_eq)

lemma sample_cycle: "loop_fn env_sample 0 init_state = Returned sample_state"
  unfolding loop_fn_ready[OF sample_first_ready] readRawValues_full[OF length_init]
  by (simp add: sample_spectral sample_state_def init_state_def)

lemma sample_numbers:
  "printNumber 24 = ''24''" "printNumber 10 = ''10''" "printNumber 20 = ''20''"
  "printNumber 30 = ''30''" "printNumber 40 = ''40''" "printNumber 50 = ''50''"
  "printNumber 60 = ''60''" "printNumber 123 = ''123''"
  "digit_char 4 = CHR ''4''" "digit_char 6 = CHR ''6''"
  by code_simp+

lemma printFloat_123_46:
  assumes "123455 / 1000 \<le> q" and "q < 123465 / 1000"
  shows "printFloat (Num q) 2 = ''123.46''"
proof -
  have "\<lfloor>\<bar>q\<bar> * 100 + 1 / 2\<rfloor> = 12346"
    using assms by (simp add: floor_eq_iff) 
  then have h: "hundredths q = 12346" by (simp add: hundredths_def)
  have "- 4294967040 \<le> q" "q \<le> 4294967040" "\<not> q < 0" using assms by simp_all
  then show ?thesis
    by (simp add: printFloat_two h sample_numbers)
qed

subsection \<open>Further facts about cycles and runs\<close>

lemma record_fields:
  fixes f0 f1 f2 f3 f4 f5 f6 f7 :: string
  assumes "CHR '','' \<notin> set f0" "CHR '','' \<notin> set f1" "CHR '','' \<notin> set f2"
    "CHR '','' \<notin> set f3" "CHR '','' \<notin> set f4" "CHR '','' \<notin> set f5"
    "CHR '','' \<notin> set f6" "CHR '','' \<notin> set f7"
  shows "split_on (CHR '','')
      (f0 @ '','' @ f1 @ '','' @ f2 @ '','' @ f3 @ '','' @ f4 @ '','' @ f5 @ '','' @ f6 @ '','' @ f7)
     = [f0, f1, f2, f3, f4, f5, f6, f7]"
  using assms by (simp add: split_on_append split_on_field)

lemma loop_fn_serial:
  assumes "loop_fn env c s = Returned s'"
  shows "serial_out s' = serial_out s
     @ csv_record (temperature env c) (sensorValues s') (readLightLevel (light_level env c))"
  using assms
  by (elim loop_fn_ReturnedD)
     (simp add: serial_out_def serial_bytes_append serial_bytes_cycle_events)

lemma loop_fn_buffer:
  assumes "loop_fn env c s = Returned s'" and "length (sensorValues s) = AS726x_NUM_CHANNELS"
  shows "sensorValues s' = map (spectral env c) all_channels"
  using assms by (elim loop_fn_ReturnedD) (simp add: readRawValues_full)

lemma pre_of_split:
  assumes "pre @ x # post = A @ B" and "x \<notin> set A"
  shows "\<exists>mid. pre = A @ mid"
proof -
  from assms(1) consider us where "pre = A @ us" | us where "pre @ us = A" "us @ B = x # post"
    by (auto simp: append_eq_append_conv2)
  then show ?thesis
  proof cases
    case 1
    then show ?thesis by blast
  next
    case 2
    show ?thesis
    proof (cases us)
      case Nil
      then show ?thesis using 2 by simp
    next
      case (Cons u us')
      then have "x \<in> set A" using 2 by auto
      then show ?thesis using assms(2) by simp
    qed
  qed
qed

lemma no_write_pre_reads:
  "SerialWrite w \<notin> set (StartMeasurement # concat (replicate k [DataReady False, Delay 5])
      @ [DataReady True, ReadRawValues vs, ReadTemperature t, ReadLightLevel x])"
  by (induction k) auto

lemma cycle_events_split:
  "cycle_events env c k buf =
     (StartMeasurement # concat (replicate k [DataReady False, Delay 5])
        @ [DataReady True, ReadRawValues (map (spectral env c) all_channels),
           ReadTemperature (temperature env c), ReadLightLevel (readLightLevel (light_level env c))])
     @ (record_writes (temperature env c) buf (readLightLevel (light_level env c)) @ [Delay 1000])"
  by (simp add: cycle_events_def read_and_emit_def)

lemma trace_init: "trace init_state = []" by (simp add: init_state_def)

lemma sample_first_serial: "first_serial env_sample 0"
  by (simp add: first_serial_def env_sample_def)

lemma run_halted:
  assumes "setup_fn env init_state = Halted h"
  shows "run env n = Halted h"
  using assms by (simp add: run_def)

lemma serial_out_polled: "serial_out (polled k s) = serial_out s"
  by (simp add: serial_out_def polled_def serial_bytes_append serial_bytes_polls)

lemma serial_out_start: "serial_out (emit StartMeasurement s) = serial_out s"
  by (simp add: serial_out_def emit_def serial_bytes_def)

lemma loop_fn_Returned_iff: "(\<exists>s'. loop_fn env c s = Returned s') \<longleftrightarrow> (\<exists>j. data_ready env c j)"
  by (cases rule: loop_fn_cases[of env c s]) (auto simp: first_ready_iff)

lemma setup_fn_trace_prefix:
  assumes "first_serial env k"
  shows "\<exists>evs. trace (final (setup_fn env init_state)) = setup_prefix k @ AsBegin (as_begin env) # evs"
proof (cases "as_begin env")
  case False
  then show ?thesis by (simp add: setup_fn_as_fail[OF assms] trace_init)
next
  case a: True
  show ?thesis
  proof (cases "bh_begin env")
    case True
    then show ?thesis using a by (simp add: setup_fn_ok[OF assms] trace_init)
  next
    case False
    then show ?thesis using a by (simp add: setup_fn_bh_fail[OF assms] trace_init)
  qed
qed

lemma run_trace_extends:
  "\<exists>evs. trace (final (run env n)) = trace (final (setup_fn env init_state)) @ evs"
proof (cases "setup_fn env init_state")
  case (Returned s0)
  have "\<exists>evs. trace (final (cycles env c n s)) = trace s @ evs" for c s
  proof (induction n arbitrary: c s)
    case 0
    show ?case by simp
  next
    case (Suc n)
    show ?case
    proof (cases rule: loop_fn_cases[of env c s])
      case (ready k)
      from Suc[of "Suc c" "\<lparr>sensorValues = readRawValues (spectral env c) (sensorValues s),
         trace = trace s @ cycle_events env c k (readRawValues (spectral env c) (sensorValues s))\<rparr>"]
      show ?thesis by (auto simp: ready(2))
    next
      case never
      then show ?thesis by (simp add: emit_def)
    qed
  qed
  then show ?thesis using Returned by (simp add: run_def)
next
  case (Halted h)
  then show ?thesis by (simp add: run_def)
next
  case (Blocked b)
  then show ?thesis by (simp add: run_def)
qed

subsection \<open>The values returned determine the output\<close>

lemma inputs_append: "inputs (xs @ ys) = inputs xs @ inputs ys"
  by (simp add: inputs_def)

lemma inputs_setup_prefix: "inputs (setup_prefix k) = []"
  by (induction k) (simp_all add: setup_prefix_def inputs_def)

lemma inputs_polls:
  "inputs (concat (replicate k [DataReady False, Delay 5])) = replicate k (DataReady False)"
  by (induction k) (simp_all add: inputs_def)

lemma inputs_cycle_events:
  "inputs (cycle_events env c k buf) =
     replicate k (DataReady False)
     @ [DataReady True, ReadRawValues (map (spectral env c) all_channels),
        ReadTemperature (temperature env c),
        ReadLightLevel (readLightLevel (light_level env c))]"
proof -
  have w: "inputs (record_writes t buf x) = []" "inputs [Delay 1000] = []" for t x
    by (simp_all add: inputs_def record_writes_def)
  have r: "inputs [DataReady True, ReadRawValues vs, ReadTemperature t, ReadLightLevel x]
      = [DataReady True, ReadRawValues vs, ReadTemperature t, ReadLightLevel x]" for vs t x
    by (simp add: inputs_def)
  have s: "inputs [StartMeasurement] = []" by (simp add: inputs_def)
  have e: "cycle_events env c k buf =
      [StartMeasurement] @ concat (replicate k [DataReady False, Delay 5])
      @ [DataReady True, ReadRawValues (map (spectral env c) all_channels),
         ReadTemperature (temperature env c),
         ReadLightLevel (readLightLevel (light_level env c))]
      @ (record_writes (temperature env c) buf (readLightLevel (light_level env c)) @ [Delay 1000])"
    unfolding cycle_events_split by simp
  show ?thesis
    unfolding e inputs_append inputs_polls w r s by simp
qed

lemma replicate_tail_eq:
  assumes "replicate k1 a @ b # xs = replicate k2 a @ b # ys" and "a \<noteq> b"
  shows "k1 = k2 \<and> xs = ys"
  using assms
proof (induction k1 arbitrary: k2)
  case 0
  then show ?case by (cases k2) auto
next
  case (Suc k1)
  then show ?case by (cases k2) auto
qed

lemma cycles_trace_extends: "\<exists>evs. trace (final (cycles env c n s)) = trace s @ evs"
proof (induction n arbitrary: c s)
  case 0
  show ?case by simp
next
  case (Suc n)
  show ?case
  proof (cases rule: loop_fn_cases[of env c s])
    case (ready k)
    from Suc[of "Suc c" "\<lparr>sensorValues = readRawValues (spectral env c) (sensorValues s),
       trace = trace s @ cycle_events env c k (readRawValues (spectral env c) (sensorValues s))\<rparr>"]
    show ?thesis by (auto simp: ready(2))
  next
    case never
    then show ?thesis by (simp add: emit_def)
  qed
qed

lemma cycles_inputs_determine:
  assumes "length (sensorValues s1) = AS726x_NUM_CHANNELS"
    and "length (sensorValues s2) = AS726x_NUM_CHANNELS"
    and "trace (final (cycles e1 c n s1)) = trace s1 @ ev1"
    and "trace (final (cycles e2 c n s2)) = trace s2 @ ev2"
    and "inputs ev1 = inputs ev2"
  shows "serial_bytes ev1 = serial_bytes ev2"
  using assms
proof (induction n arbitrary: c s1 s2 ev1 ev2)
  case 0
  then show ?case by simp
next
  case (Suc n)
  note len1 = Suc.prems(1) and len2 = Suc.prems(2)
  show ?case
  proof (cases rule: loop_fn_cases[of e1 c s1])
    case never1: never
    have ev1: "ev1 = [StartMeasurement]"
      using Suc.prems(3) by (simp add: never1(2) emit_def)
    show ?thesis
    proof (cases rule: loop_fn_cases[of e2 c s2])
      case never
      have "ev2 = [StartMeasurement]"
        using Suc.prems(4) by (simp add: never(2) emit_def)
      then show ?thesis using ev1 by simp
    next
      case (ready k2)
      define b2 where "b2 = readRawValues (spectral e2 c) (sensorValues s2)"
      define t2 where "t2 = \<lparr>sensorValues = b2, trace = trace s2 @ cycle_events e2 c k2 b2\<rparr>"
      obtain r2 where r2: "trace (final (cycles e2 (Suc c) n t2)) = trace t2 @ r2"
        using cycles_trace_extends by blast
      have "ev2 = cycle_events e2 c k2 b2 @ r2"
        using Suc.prems(4) r2 by (simp add: ready(2) b2_def[symmetric] t2_def[symmetric]) (simp add: t2_def)
      then have "DataReady True \<in> set (inputs ev2)"
        by (simp add: inputs_append inputs_cycle_events)
      moreover have "inputs ev1 = []" by (simp add: ev1 inputs_def)
      ultimately show ?thesis using Suc.prems(5) by simp
    qed
  next
    case ready1: (ready k1)
    define b1 where "b1 = readRawValues (spectral e1 c) (sensorValues s1)"
    define t1 where "t1 = \<lparr>sensorValues = b1, trace = trace s1 @ cycle_events e1 c k1 b1\<rparr>"
    obtain r1 where r1: "trace (final (cycles e1 (Suc c) n t1)) = trace t1 @ r1"
      using cycles_trace_extends by blast
    have ev1: "ev1 = cycle_events e1 c k1 b1 @ r1"
      using Suc.prems(3) r1 by (simp add: ready1(2) b1_def[symmetric] t1_def[symmetric]) (simp add: t1_def)
    show ?thesis
    proof (cases rule: loop_fn_cases[of e2 c s2])
      case never
      have "ev2 = [StartMeasurement]"
        using Suc.prems(4) by (simp add: never(2) emit_def)
      then have "inputs ev2 = []" by (simp add: inputs_def)
      moreover have "DataReady True \<in> set (inputs ev1)"
        by (simp add: ev1 inputs_append inputs_cycle_events)
      ultimately show ?thesis using Suc.prems(5) by simp
    next
      case (ready k2)
      define b2 where "b2 = readRawValues (spectral e2 c) (sensorValues s2)"
      define t2 where "t2 = \<lparr>sensorValues = b2, trace = trace s2 @ cycle_events e2 c k2 b2\<rparr>"
      obtain r2 where r2: "trace (final (cycles e2 (Suc c) n t2)) = trace t2 @ r2"
        using cycles_trace_extends by blast
      have ev2: "ev2 = cycle_events e2 c k2 b2 @ r2"
        using Suc.prems(4) r2 by (simp add: ready(2) b2_def[symmetric] t2_def[symmetric]) (simp add: t2_def)
      have "replicate k1 (DataReady False) @ DataReady True #
              ([ReadRawValues (map (spectral e1 c) all_channels),
                ReadTemperature (temperature e1 c),
                ReadLightLevel (readLightLevel (light_level e1 c))] @ inputs r1)
          = replicate k2 (DataReady False) @ DataReady True #
              ([ReadRawValues (map (spectral e2 c) all_channels),
                ReadTemperature (temperature e2 c),
                ReadLightLevel (readLightLevel (light_level e2 c))] @ inputs r2)"
        using Suc.prems(5) by (simp add: ev1 ev2 inputs_append inputs_cycle_events)
      from replicate_tail_eq[OF this]
      have sp: "map (spectral e1 c) all_channels = map (spectral e2 c) all_channels"
        and te: "temperature e1 c = temperature e2 c"
        and lx: "readLightLevel (light_level e1 c) = readLightLevel (light_level e2 c)"
        and rest: "inputs r1 = inputs r2"
        by simp_all
      have b1: "b1 = map (spectral e1 c) all_channels"
        unfolding b1_def using len1 by (rule readRawValues_full)
      have b2: "b2 = map (spectral e2 c) all_channels"
        unfolding b2_def using len2 by (rule readRawValues_full)
      have cyc: "serial_bytes (cycle_events e1 c k1 b1) = serial_bytes (cycle_events e2 c k2 b2)"
        by (simp add: serial_bytes_cycle_events b1 b2 sp te lx)
      have l1: "length (sensorValues t1) = AS726x_NUM_CHANNELS"
        using len1 by (simp add: t1_def b1_def length_readRawValues)
      have l2: "length (sensorValues t2) = AS726x_NUM_CHANNELS"
        using len2 by (simp add: t2_def b2_def length_readRawValues)
      have "serial_bytes r1 = serial_bytes r2"
        using l1 l2 r1 r2 rest by (rule Suc.IH)
      then show ?thesis by (simp add: ev1 ev2 serial_bytes_append cyc)
    qed
  qed
qed

lemma run_shape:
  obtains (blocked) "inputs (trace (final (run e n))) = []"
      and "serial_out (final (run e n)) = []"
  | (as_fail) "inputs (trace (final (run e n))) = [AsBegin False]"
      and "serial_out (final (run e n)) =
             ''Error: could not connect to AS7262 (check wiring).'' @ CRLF"
  | (bh_fail) "inputs (trace (final (run e n))) =
             [AsBegin True, BhBegin CONTINUOUS_HIGH_RES_MODE False]"
      and "serial_out (final (run e n)) =
             ''Error: could not initialize BH1750 (check wiring).'' @ CRLF"
  | (ok) s0 ev where "length (sensorValues s0) = AS726x_NUM_CHANNELS"
      and "trace (final (cycles e 0 n s0)) = trace s0 @ ev"
      and "inputs (trace (final (run e n))) =
             AsBegin True # BhBegin CONTINUOUS_HIGH_RES_MODE True # inputs ev"
      and "serial_out (final (run e n)) =
             ''BH1750 ready'' @ CRLF
             @ ''Sensors initialized. Starting measurements...'' @ CRLF @ serial_bytes ev"
proof (cases "\<exists>j. serial_ready e j")
  case False
  then have n: "\<forall>j. \<not> serial_ready e j" by simp
  have r: "run e n = Blocked (emit (SerialBegin 115200) init_state)"
    by (simp add: run_def setup_fn_blocked[OF n])
  have t: "trace (final (run e n)) = [SerialBegin 115200]"
    unfolding r by (simp add: emit_def init_state_def)
  show ?thesis
    by (rule blocked) (simp_all add: t serial_out_def inputs_def serial_bytes_def)
next
  case True
  then obtain k where k: "first_serial e k" using first_serial_ex by blast
  show ?thesis
  proof (cases "as_begin e")
    case False
    have t: "trace (final (run e n)) = setup_prefix k
        @ [AsBegin False,
           SerialWrite (''Error: could not connect to AS7262 (check wiring).'' @ CRLF)]"
      by (simp add: run_def setup_fn_as_fail[OF k False] trace_init)
    show ?thesis
    proof (rule as_fail)
      show "inputs (trace (final (run e n))) = [AsBegin False]"
        unfolding t inputs_append inputs_setup_prefix by (simp add: inputs_def)
      show "serial_out (final (run e n)) =
             ''Error: could not connect to AS7262 (check wiring).'' @ CRLF"
        unfolding serial_out_def t serial_bytes_append serial_bytes_setup_prefix
        by (simp add: serial_bytes_def)
    qed
  next
    case a: True
    show ?thesis
    proof (cases "bh_begin e")
      case False
      have t: "trace (final (run e n)) = setup_prefix k
          @ [AsBegin True, BhBegin CONTINUOUS_HIGH_RES_MODE False,
             SerialWrite (''Error: could not initialize BH1750 (check wiring).'' @ CRLF)]"
        by (simp add: run_def setup_fn_bh_fail[OF k a False] trace_init)
      show ?thesis
      proof (rule bh_fail)
        show "inputs (trace (final (run e n))) =
             [AsBegin True, BhBegin CONTINUOUS_HIGH_RES_MODE False]"
          unfolding t inputs_append inputs_setup_prefix by (simp add: inputs_def)
        show "serial_out (final (run e n)) =
             ''Error: could not initialize BH1750 (check wiring).'' @ CRLF"
          unfolding serial_out_def t serial_bytes_append serial_bytes_setup_prefix
          by (simp add: serial_bytes_def)
      qed
    next
      case b: True
      define s0 where "s0 = \<lparr>sensorValues = sensorValues init_state,
         trace = trace init_state @ setup_prefix k
           @ [AsBegin True, BhBegin CONTINUOUS_HIGH_RES_MODE True,
              SerialWrite (''BH1750 ready'' @ CRLF),
              SerialWrite (''Sensors initialized. Starting measurements...'' @ CRLF)]\<rparr>"
      have s: "setup_fn e init_state = Returned s0"
        unfolding s0_def by (rule setup_fn_ok[OF k a b])
      have r: "run e n = cycles e 0 n s0" by (simp add: run_def s)
      have len: "length (sensorValues s0) = AS726x_NUM_CHANNELS"
        by (simp add: s0_def length_init)
      obtain ev where ev: "trace (final (cycles e 0 n s0)) = trace s0 @ ev"
        using cycles_trace_extends by blast
      have t: "trace (final (run e n)) = setup_prefix k
           @ [AsBegin True, BhBegin CONTINUOUS_HIGH_RES_MODE True,
              SerialWrite (''BH1750 ready'' @ CRLF),
              SerialWrite (''Sensors initialized. Starting measurements...'' @ CRLF)] @ ev"
        unfolding r ev by (simp add: s0_def trace_init)
      show ?thesis
      proof (rule ok[OF len ev])
        show "inputs (trace (final (run e n))) =
             AsBegin True # BhBegin CONTINUOUS_HIGH_RES_MODE True # inputs ev"
          unfolding t inputs_append inputs_setup_prefix by (simp add: inputs_def)
        show "serial_out (final (run e n)) =
             ''BH1750 ready'' @ CRLF
             @ ''Sensors initialized. Starting measurements...'' @ CRLF @ serial_bytes ev"
          unfolding serial_out_def t serial_bytes_append serial_bytes_setup_prefix
          by (simp add: serial_bytes_def)
      qed
    qed
  qed
qed

lemma once_first_ready: "first_ready env_once c 2"
  by (simp add: first_ready_iff env_once_def)

lemma once_run: "run env_once 1 = run env_sample 1"
proof -
  have fs: "first_serial env_once 0" and ab: "as_begin env_once" "bh_begin env_once"
    by (simp_all add: first_serial_def env_once_def env_sample_def)
  have ab': "as_begin env_sample" "bh_begin env_sample" by (simp_all add: env_sample_def)
  have so: "setup_fn env_once init_state = setup_fn env_sample init_state"
    unfolding setup_fn_ok[OF fs ab] setup_fn_ok[OF sample_first_serial ab'] ..
  have lo: "loop_fn env_once 0 s = loop_fn env_sample 0 s" for s
    unfolding loop_fn_ready[OF once_first_ready] loop_fn_ready[OF sample_first_ready]
    by (simp add: env_once_def cycle_events_def read_and_emit_def)
  show ?thesis by (simp add: run_def so lo split: outcome.splits)
qed

section \<open>The claims\<close>

subsection \<open>C1: the format of a record\<close>

text \<open>
  Claim C1. Every cycle that reaches emission appends to the serial output one line:
  eight fields separated by seven commas and followed by carriage return and line
  feed, with no line break inside. The fields are, in this order, the temperature, the
  six entries of the channel buffer at the indices of violet, blue, green, yellow,
  orange and red, each as an unsigned decimal number, and the illuminance that the
  driver has returned, written with 2 decimals: an optional minus sign, digits, the
  decimal point and exactly two digits.
\<close>

theorem record_format:
  assumes "loop_fn env c s = Returned s'"
  shows "\<exists>body ft fv fb fg fy fo fr fl.
      serial_out s' = serial_out s @ body @ CRLF
    \<and> CHR 0x0D \<notin> set body \<and> CHR 0x0A \<notin> set body
    \<and> split_on (CHR '','') body = [ft, fv, fb, fg, fy, fo, fr, fl]
    \<and> unsigned_field ft \<and> dec_value ft = unat (temperature env c)
    \<and> unsigned_field fv \<and> dec_value fv = unat (sensorValues s' ! channel_index AS726x_VIOLET)
    \<and> unsigned_field fb \<and> dec_value fb = unat (sensorValues s' ! channel_index AS726x_BLUE)
    \<and> unsigned_field fg \<and> dec_value fg = unat (sensorValues s' ! channel_index AS726x_GREEN)
    \<and> unsigned_field fy \<and> dec_value fy = unat (sensorValues s' ! channel_index AS726x_YELLOW)
    \<and> unsigned_field fo \<and> dec_value fo = unat (sensorValues s' ! channel_index AS726x_ORANGE)
    \<and> unsigned_field fr \<and> dec_value fr = unat (sensorValues s' ! channel_index AS726x_RED)
    \<and> fl = printFloat (readLightLevel (light_level env c)) 2
    \<and> two_decimals fl"
proof -
  define buf where "buf = sensorValues s'"
  define ft where "ft = printNumber (unat (temperature env c))"
  define fv where "fv = printNumber (unat (buf ! channel_index AS726x_VIOLET))"
  define fb where "fb = printNumber (unat (buf ! channel_index AS726x_BLUE))"
  define fg where "fg = printNumber (unat (buf ! channel_index AS726x_GREEN))"
  define fy where "fy = printNumber (unat (buf ! channel_index AS726x_YELLOW))"
  define fo where "fo = printNumber (unat (buf ! channel_index AS726x_ORANGE))"
  define fr where "fr = printNumber (unat (buf ! channel_index AS726x_RED))"
  define fl where "fl = printFloat (readLightLevel (light_level env c)) 2"
  define body where
    "body = ft @ '','' @ fv @ '','' @ fb @ '','' @ fg @ '','' @ fy @ '','' @ fo @ '','' @ fr @ '','' @ fl"
  have u: "unsigned_field ft" "unsigned_field fv" "unsigned_field fb" "unsigned_field fg"
    "unsigned_field fy" "unsigned_field fo" "unsigned_field fr"
    unfolding ft_def fv_def fb_def fg_def fy_def fo_def fr_def by (rule printNumber_unsigned)+
  have d: "dec_value ft = unat (temperature env c)"
    "dec_value fv = unat (buf ! channel_index AS726x_VIOLET)"
    "dec_value fb = unat (buf ! channel_index AS726x_BLUE)"
    "dec_value fg = unat (buf ! channel_index AS726x_GREEN)"
    "dec_value fy = unat (buf ! channel_index AS726x_YELLOW)"
    "dec_value fo = unat (buf ! channel_index AS726x_ORANGE)"
    "dec_value fr = unat (buf ! channel_index AS726x_RED)"
    unfolding ft_def fv_def fb_def fg_def fy_def fo_def fr_def by (rule dec_value_printNumber)+
  have ls: "CHR '','' \<notin> set fl" "CHR 0x0D \<notin> set fl" "CHR 0x0A \<notin> set fl"
    unfolding fl_def using printFloat_no_sep by blast+
  have out: "serial_out s' = serial_out s @ body @ CRLF"
    unfolding loop_fn_serial[OF assms] csv_record_eq body_def
      ft_def fv_def fb_def fg_def fy_def fo_def fr_def fl_def buf_def by simp
  have cr: "CHR 0x0D \<notin> set body" and lf: "CHR 0x0A \<notin> set body"
    unfolding body_def using u[THEN unsigned_field_no_sep(2)] u[THEN unsigned_field_no_sep(3)] ls
    by simp_all
  have sp: "split_on (CHR '','') body = [ft, fv, fb, fg, fy, fo, fr, fl]"
    unfolding body_def using u[THEN unsigned_field_no_sep(1)] ls(1) by (intro record_fields)
  have p: "two_decimals fl"
    unfolding fl_def by (rule printable_two_decimals[OF printable_readLightLevel])
  show ?thesis
    using out cr lf sp u d p unfolding buf_def fl_def by blast
qed

text \<open>
  The cycle of \<open>env_sample\<close> from the initial state reaches emission; its line is the one
  of the spec's scenario, and its last field \<^verbatim>\<open>123.46\<close> has two decimals.
\<close>

theorem record_format_witness:
  "loop_fn env_sample 0 init_state = Returned sample_state
   \<and> serial_out sample_state = ''24,10,20,30,40,50,60,123.46'' @ CRLF
   \<and> two_decimals (printFloat (readLightLevel (light_level env_sample 0)) 2)
   \<and> two_decimals ''123.46''"
proof -
  have l: "printFloat (Num (15432 / 125)) 2 = ''123.46''"
    by (rule printFloat_123_46) simp_all
  from record_format[OF sample_cycle]
  have t: "two_decimals (printFloat (readLightLevel (light_level env_sample 0)) 2)" by blast
  then have t': "two_decimals ''123.46''" using l by (simp add: sample_light)
  have "serial_out sample_state = ''24,10,20,30,40,50,60,123.46'' @ CRLF"
    unfolding loop_fn_serial[OF sample_cycle] sample_light
    by (simp add: csv_record_eq l init_state_def serial_out_def serial_bytes_def
        env_sample_def sample_state_def sample_values_def sample_numbers)
  then show ?thesis using sample_cycle t t' by (intro conjI)
qed

subsection \<open>C2: the order of the spectral fields\<close>

text \<open>
  Claim C2. In the record of every cycle that reaches emission, the six fields after the
  first one are the readings of that cycle for violet, blue, green, yellow, orange and
  red, in this order: the second to seventh fields of the line are the decimal texts
  of these six readings, and read back as numbers they are these six readings. The
  buffer has the six entries of its declaration.
\<close>

theorem spectral_order:
  assumes "loop_fn env c s = Returned s'"
    and "length (sensorValues s) = AS726x_NUM_CHANNELS"
  shows "\<exists>body. serial_out s' = serial_out s @ body @ CRLF
     \<and> take 6 (drop 1 (split_on (CHR '','') body)) =
         map (\<lambda>ch. printNumber (unat (spectral env c ch)))
           [AS726x_VIOLET, AS726x_BLUE, AS726x_GREEN, AS726x_YELLOW, AS726x_ORANGE, AS726x_RED]
     \<and> map dec_value (take 6 (drop 1 (split_on (CHR '','') body))) =
         map (\<lambda>ch. unat (spectral env c ch))
           [AS726x_VIOLET, AS726x_BLUE, AS726x_GREEN, AS726x_YELLOW, AS726x_ORANGE, AS726x_RED]"
proof -
  define body where "body =
     printNumber (unat (temperature env c)) @ '','' @
     printNumber (unat (spectral env c AS726x_VIOLET)) @ '','' @
     printNumber (unat (spectral env c AS726x_BLUE)) @ '','' @
     printNumber (unat (spectral env c AS726x_GREEN)) @ '','' @
     printNumber (unat (spectral env c AS726x_YELLOW)) @ '','' @
     printNumber (unat (spectral env c AS726x_ORANGE)) @ '','' @
     printNumber (unat (spectral env c AS726x_RED)) @ '','' @
     printFloat (readLightLevel (light_level env c)) 2"
  have "serial_out s' = serial_out s @ body @ CRLF"
    unfolding loop_fn_serial[OF assms(1)] loop_fn_buffer[OF assms] csv_record_eq body_def
    by (simp add: all_channels_def)
  moreover have sp: "split_on (CHR '','') body =
     [printNumber (unat (temperature env c)),
      printNumber (unat (spectral env c AS726x_VIOLET)),
      printNumber (unat (spectral env c AS726x_BLUE)),
      printNumber (unat (spectral env c AS726x_GREEN)),
      printNumber (unat (spectral env c AS726x_YELLOW)),
      printNumber (unat (spectral env c AS726x_ORANGE)),
      printNumber (unat (spectral env c AS726x_RED)),
      printFloat (readLightLevel (light_level env c)) 2]"
    unfolding body_def
    using unsigned_field_no_sep(1)[OF printNumber_unsigned] printFloat_no_sep
    by (intro record_fields) blast+
  ultimately show ?thesis
    by (intro exI[of _ body]) (simp add: dec_value_printNumber)
qed

text \<open>The fields 2 to 7 of the sample cycle's record denote 10, 20, 30, 40, 50, 60.\<close>

theorem spectral_order_witness:
  "loop_fn env_sample 0 init_state = Returned sample_state
   \<and> length (sensorValues init_state) = AS726x_NUM_CHANNELS
   \<and> (\<exists>body. serial_out sample_state = serial_out init_state @ body @ CRLF
       \<and> map dec_value (take 6 (drop 1 (split_on (CHR '','') body))) = [10, 20, 30, 40, 50, 60])"
proof -
  from spectral_order[OF sample_cycle length_init]
  obtain body where "serial_out sample_state = serial_out init_state @ body @ CRLF"
    and "map dec_value (take 6 (drop 1 (split_on (CHR '','') body))) =
         map (\<lambda>ch. unat (spectral env_sample 0 ch))
           [AS726x_VIOLET, AS726x_BLUE, AS726x_GREEN, AS726x_YELLOW, AS726x_ORANGE, AS726x_RED]"
    by blast
  moreover have "map (\<lambda>ch. unat (spectral env_sample 0 ch))
           [AS726x_VIOLET, AS726x_BLUE, AS726x_GREEN, AS726x_YELLOW, AS726x_ORANGE, AS726x_RED]
       = [10, 20, 30, 40, 50, 60]"
    by (simp add: env_sample_def)
  ultimately show ?thesis using sample_cycle length_init by auto
qed

subsection \<open>C3: the scenario of the spec\<close>

text \<open>
  Claim C3. In a cycle whose measurement becomes ready, with temperature 24, channel
  readings 10, 20, 30, 40, 50, 60 and an illuminance of 123.456 lux, the sketch returns
  from \<^verbatim>\<open>loop()\<close> and has appended exactly the line \<^verbatim>\<open>24,10,20,30,40,50,60,123.46\<close>
  and a line break. The theorem allows every illuminance from 123.455 up to but not
  including 123.465, so that it covers the decimal 123.456 and the binary
  floating-point numbers nearest to it alike.
\<close>

theorem concrete_scenario:
  assumes "data_ready env c j"
    and "length (sensorValues s) = AS726x_NUM_CHANNELS"
    and "temperature env c = 24"
    and "map (spectral env c) all_channels = [10, 20, 30, 40, 50, 60]"
    and "readLightLevel (light_level env c) = Num q"
    and "123455 / 1000 \<le> q" and "q < 123465 / 1000"
  shows "\<exists>s'. loop_fn env c s = Returned s'
     \<and> serial_out s' = serial_out s @ ''24,10,20,30,40,50,60,123.46'' @ CRLF"
proof -
  from first_ready_ex[OF assms(1)] obtain k where k: "first_ready env c k" by blast
  define s' where "s' = \<lparr>sensorValues = readRawValues (spectral env c) (sensorValues s),
       trace = trace s @ cycle_events env c k (readRawValues (spectral env c) (sensorValues s))\<rparr>"
  have r: "loop_fn env c s = Returned s'" unfolding s'_def by (rule loop_fn_ready[OF k])
  have b: "sensorValues s' = [10, 20, 30, 40, 50, 60]"
    using loop_fn_buffer[OF r assms(2)] assms(4) by simp
  have l: "printFloat (Num q) 2 = ''123.46''" using assms(6,7) by (rule printFloat_123_46)
  have "serial_out s' = serial_out s @ ''24,10,20,30,40,50,60,123.46'' @ CRLF"
    unfolding loop_fn_serial[OF r] b csv_record_eq assms(3,5) l
    by (simp add: sample_numbers)
  then show ?thesis using r by blast
qed

text \<open>The sample input meets every assumption, with the illuminance 123.456.\<close>

theorem concrete_scenario_witness:
  "data_ready env_sample 0 2
   \<and> length (sensorValues init_state) = AS726x_NUM_CHANNELS
   \<and> temperature env_sample 0 = 24
   \<and> map (spectral env_sample 0) all_channels = [10, 20, 30, 40, 50, 60]
   \<and> readLightLevel (light_level env_sample 0) = Num (123456 / 1000)
   \<and> (123455 / 1000 :: rat) \<le> 123456 / 1000 \<and> (123456 / 1000 :: rat) < 123465 / 1000
   \<and> (\<exists>s'. loop_fn env_sample 0 init_state = Returned s'
       \<and> serial_out s' = serial_out init_state @ ''24,10,20,30,40,50,60,123.46'' @ CRLF)"
proof -
  have h1: "data_ready env_sample 0 2" by (simp add: env_sample_def)
  have h3: "temperature env_sample 0 = 24" by (simp add: env_sample_def)
  have h4: "map (spectral env_sample 0) all_channels = [10, 20, 30, 40, 50, 60]"
    by (simp add: env_sample_def all_channels_def)
  have h5: "readLightLevel (light_level env_sample 0) = Num (123456 / 1000)" by (rule sample_light)
  have h6: "(123455 / 1000 :: rat) \<le> 123456 / 1000" by simp
  have h7: "(123456 / 1000 :: rat) < 123465 / 1000" by simp
  from concrete_scenario[OF h1 length_init h3 h4 h5 h6 h7] h1 length_init h3 h4 h5 h6 h7
  show ?thesis by blast
qed

subsection \<open>C4: a record holds the values of its own cycle\<close>

text \<open>
  Claim C4. Let a cycle reach emission, from a state whose buffer has its six entries,
  whatever they hold. Then the buffer holds the six channel readings of this cycle
  afterwards, every entry overwritten; the record is \<open>record_of env c\<close>, made of the
  temperature, the channel readings and the illuminance of this cycle only; the batch
  read and the temperature read come after the poll that reported ready and before the
  first write of the record; the record is the same from every other state of the
  buffer; and it is the same for every input that agrees on the three readings of this
  cycle.
\<close>

theorem same_cycle_values:
  assumes "loop_fn env c s = Returned s'"
    and "length (sensorValues s) = AS726x_NUM_CHANNELS"
  shows "sensorValues s' = map (spectral env c) all_channels
     \<and> serial_out s' = serial_out s @ record_of env c
     \<and> (\<exists>k. first_ready env c k
          \<and> trace s' = trace s
              @ (StartMeasurement # concat (replicate k [DataReady False, Delay 5]) @ [DataReady True])
              @ [ReadRawValues (map (spectral env c) all_channels),
                 ReadTemperature (temperature env c),
                 ReadLightLevel (readLightLevel (light_level env c))]
              @ record_writes (temperature env c) (map (spectral env c) all_channels)
                  (readLightLevel (light_level env c))
              @ [Delay 1000])
     \<and> (\<forall>t t'. length (sensorValues t) = AS726x_NUM_CHANNELS \<and> loop_fn env c t = Returned t'
          \<longrightarrow> serial_out t' = serial_out t @ record_of env c)
     \<and> (\<forall>env'. spectral env' c = spectral env c \<and> temperature env' c = temperature env c
            \<and> readLightLevel (light_level env' c) = readLightLevel (light_level env c)
          \<longrightarrow> record_of env' c = record_of env c)"
proof -
  have b: "sensorValues s' = map (spectral env c) all_channels"
    using assms by (rule loop_fn_buffer)
  have out: "serial_out t' = serial_out t @ record_of env c"
    if "length (sensorValues t) = AS726x_NUM_CHANNELS" and "loop_fn env c t = Returned t'" for t t'
    unfolding loop_fn_serial[OF that(2)] loop_fn_buffer[OF that(2,1)] record_of_def ..
  from assms(1) obtain k where k: "first_ready env c k"
    and s': "s' = \<lparr>sensorValues = readRawValues (spectral env c) (sensorValues s),
         trace = trace s @ cycle_events env c k (readRawValues (spectral env c) (sensorValues s))\<rparr>"
    by (rule loop_fn_ReturnedD)
  have tr: "trace s' = trace s
              @ (StartMeasurement # concat (replicate k [DataReady False, Delay 5]) @ [DataReady True])
              @ [ReadRawValues (map (spectral env c) all_channels),
                 ReadTemperature (temperature env c),
                 ReadLightLevel (readLightLevel (light_level env c))]
              @ record_writes (temperature env c) (map (spectral env c) all_channels)
                  (readLightLevel (light_level env c))
              @ [Delay 1000]"
    unfolding s' readRawValues_full[OF assms(2)] cycle_events_split by simp
  have indep: "record_of env' c = record_of env c"
    if "spectral env' c = spectral env c \<and> temperature env' c = temperature env c
            \<and> readLightLevel (light_level env' c) = readLightLevel (light_level env c)" for env'
    using that by (simp add: record_of_def)
  show ?thesis using b out[OF assms(2,1)] k tr out indep by blast
qed

text \<open>The sample cycle, from the zeroed buffer of the initial state.\<close>

theorem same_cycle_values_witness:
  "loop_fn env_sample 0 init_state = Returned sample_state
   \<and> length (sensorValues init_state) = AS726x_NUM_CHANNELS
   \<and> sensorValues sample_state = map (spectral env_sample 0) all_channels
   \<and> serial_out sample_state = serial_out init_state @ record_of env_sample 0"
proof -
  note w = same_cycle_values[OF sample_cycle length_init]
  from w have a: "sensorValues sample_state = map (spectral env_sample 0) all_channels"
    by (rule conjunct1)
  from w have b: "serial_out sample_state = serial_out init_state @ record_of env_sample 0"
    by (rule conjunct2[THEN conjunct1])
  show ?thesis using sample_cycle length_init a b by (intro conjI)
qed

subsection \<open>C5: no emission before data-ready\<close>

text \<open>
  Claim C5. Whenever a cycle writes anything to the serial port, the events of the cycle
  before that write begin with the start of the measurement, then as many polls that
  report false, each followed by the pause of 5 ms, as it takes, then the first poll
  that reports true, then the three reads; writes of the same record may follow. Such a
  cycle returns from \<^verbatim>\<open>loop()\<close>.
\<close>

theorem emission_after_ready:
  assumes "trace (final (loop_fn env c s)) = trace s @ pre @ SerialWrite w # post"
  shows "\<exists>k mid. first_ready env c k
     \<and> pre = StartMeasurement # concat (replicate k [DataReady False, Delay 5])
          @ [DataReady True, ReadRawValues (map (spectral env c) all_channels),
             ReadTemperature (temperature env c), ReadLightLevel (readLightLevel (light_level env c))]
          @ mid
     \<and> (\<exists>s'. loop_fn env c s = Returned s')"
proof (cases rule: loop_fn_cases[of env c s])
  case never
  with assms have "[StartMeasurement] = pre @ SerialWrite w # post"
    by (simp add: emit_def)
  then have False by (cases pre) auto
  then show ?thesis ..
next
  case (ready k)
  define buf where "buf = readRawValues (spectral env c) (sensorValues s)"
  define A where "A = StartMeasurement # concat (replicate k [DataReady False, Delay 5])
        @ [DataReady True, ReadRawValues (map (spectral env c) all_channels),
           ReadTemperature (temperature env c), ReadLightLevel (readLightLevel (light_level env c))]"
  have "pre @ SerialWrite w # post = cycle_events env c k buf"
    using assms ready(2) by (simp add: buf_def)
  then have eq: "pre @ SerialWrite w # post
      = A @ (record_writes (temperature env c) buf (readLightLevel (light_level env c)) @ [Delay 1000])"
    unfolding cycle_events_split A_def .
  have "SerialWrite w \<notin> set A" unfolding A_def by (rule no_write_pre_reads)
  from pre_of_split[OF eq this] obtain mid where "pre = A @ mid" ..
  then show ?thesis using ready unfolding A_def by auto
qed

text \<open>
  The first write of the sample cycle: two polls report false, the third reports
  true.
\<close>

theorem emission_after_ready_witness:
  "trace (final (loop_fn env_sample 0 init_state)) =
     trace init_state
       @ (StartMeasurement # concat (replicate 2 [DataReady False, Delay 5])
           @ [DataReady True, ReadRawValues (map (spectral env_sample 0) all_channels),
              ReadTemperature (temperature env_sample 0),
              ReadLightLevel (readLightLevel (light_level env_sample 0))])
       @ SerialWrite (printNumber (unat (temperature env_sample 0)))
       # (tl (record_writes (temperature env_sample 0) sample_values (readLightLevel (light_level env_sample 0)))
           @ [Delay 1000])
   \<and> first_ready env_sample 0 2"
proof -
  have tr: "trace (final (loop_fn env_sample 0 init_state)) =
     trace init_state
       @ (StartMeasurement # concat (replicate 2 [DataReady False, Delay 5])
           @ [DataReady True, ReadRawValues (map (spectral env_sample 0) all_channels),
              ReadTemperature (temperature env_sample 0),
              ReadLightLevel (readLightLevel (light_level env_sample 0))])
       @ SerialWrite (printNumber (unat (temperature env_sample 0)))
       # (tl (record_writes (temperature env_sample 0) sample_values (readLightLevel (light_level env_sample 0)))
           @ [Delay 1000])"
    unfolding sample_cycle sample_state_def final.simps cycle_events_split
    by (simp add: init_state_def record_writes_def)
  from emission_after_ready[OF tr] obtain k mid where "first_ready env_sample 0 k" by blast
  then show ?thesis using tr sample_first_ready by blast
qed

subsection \<open>C6: the spectral sensor fails to initialize\<close>

text \<open>
  Claim C6. If \<^verbatim>\<open>as7262.begin()\<close> reports failure (the call is reached once the serial
  port is up), the program halts in \<^verbatim>\<open>setup()\<close>, in one and the same state however long it
  is observed. Its events are those of \<^verbatim>\<open>setup()\<close> up to \<^verbatim>\<open>pinMode\<close>, the failed
  \<^verbatim>\<open>begin\<close> and one write, the failure diagnostic: the illuminance sensor is not
  initialized, no measurement is started, and the serial output is this one line and
  nothing else, so neither a ready message nor a record.
\<close>

theorem as7262_failure_terminal:
  assumes "serial_ready env j" and "\<not> as_begin env"
  shows "\<exists>k h. first_serial env k
     \<and> (\<forall>n. run env n = Halted h)
     \<and> trace h = setup_prefix k
          @ [AsBegin False,
             SerialWrite (''Error: could not connect to AS7262 (check wiring).'' @ CRLF)]
     \<and> serial_out h = ''Error: could not connect to AS7262 (check wiring).'' @ CRLF"
proof -
  from first_serial_ex[OF assms(1)] obtain k where k: "first_serial env k" ..
  define h where "h = \<lparr>sensorValues = sensorValues init_state,
       trace = trace init_state @ setup_prefix k
         @ [AsBegin False,
            SerialWrite (''Error: could not connect to AS7262 (check wiring).'' @ CRLF)]\<rparr>"
  have s: "setup_fn env init_state = Halted h"
    unfolding h_def by (rule setup_fn_as_fail[OF k assms(2)])
  have r: "\<forall>n. run env n = Halted h" using run_halted[OF s] by blast
  have t: "trace h = setup_prefix k
          @ [AsBegin False,
             SerialWrite (''Error: could not connect to AS7262 (check wiring).'' @ CRLF)]"
    by (simp add: h_def trace_init)
  have o: "serial_out h = ''Error: could not connect to AS7262 (check wiring).'' @ CRLF"
    unfolding serial_out_def t serial_bytes_append serial_bytes_setup_prefix
    by (simp add: serial_bytes_def)
  show ?thesis using k r t o by blast
qed

text \<open>Both sensors fail in \<open>env_as_fail\<close>; only the first diagnostic is written.\<close>

theorem as7262_failure_terminal_witness:
  "serial_ready env_as_fail 0 \<and> \<not> as_begin env_as_fail \<and> \<not> bh_begin env_as_fail
   \<and> (\<exists>k h. first_serial env_as_fail k
     \<and> (\<forall>n. run env_as_fail n = Halted h)
     \<and> trace h = setup_prefix k
          @ [AsBegin False,
             SerialWrite (''Error: could not connect to AS7262 (check wiring).'' @ CRLF)]
     \<and> serial_out h = ''Error: could not connect to AS7262 (check wiring).'' @ CRLF)"
proof -
  have a: "serial_ready env_as_fail 0" by (simp add: env_as_fail_def env_sample_def)
  have b: "\<not> as_begin env_as_fail" by (simp add: env_as_fail_def)
  have c: "\<not> bh_begin env_as_fail" by (simp add: env_as_fail_def)
  from as7262_failure_terminal[OF a b] a b c show ?thesis by (intro conjI)
qed

subsection \<open>C7: the illuminance sensor fails to initialize\<close>

text \<open>
  Claim C7. If \<^verbatim>\<open>as7262.begin()\<close> succeeds and \<^verbatim>\<open>lightMeter.begin\<close> reports failure, the
  program halts in \<^verbatim>\<open>setup()\<close>, in one and the same state however long it is observed.
  The last event of that state is the write of the illuminance failure diagnostic, and
  the serial output is this one line: no ready message and no record is ever written.
\<close>

theorem bh1750_failure_terminal:
  assumes "serial_ready env j" and "as_begin env" and "\<not> bh_begin env"
  shows "\<exists>k h. first_serial env k
     \<and> (\<forall>n. run env n = Halted h)
     \<and> trace h = setup_prefix k
          @ [AsBegin True, BhBegin CONTINUOUS_HIGH_RES_MODE False,
             SerialWrite (''Error: could not initialize BH1750 (check wiring).'' @ CRLF)]
     \<and> serial_out h = ''Error: could not initialize BH1750 (check wiring).'' @ CRLF
     \<and> last (trace h)
         = SerialWrite (''Error: could not initialize BH1750 (check wiring).'' @ CRLF)"
proof -
  from first_serial_ex[OF assms(1)] obtain k where k: "first_serial env k" ..
  define h where "h = \<lparr>sensorValues = sensorValues init_state,
       trace = trace init_state @ setup_prefix k
         @ [AsBegin True, BhBegin CONTINUOUS_HIGH_RES_MODE False,
            SerialWrite (''Error: could not initialize BH1750 (check wiring).'' @ CRLF)]\<rparr>"
  have s: "setup_fn env init_state = Halted h"
    unfolding h_def by (rule setup_fn_bh_fail[OF k assms(2,3)])
  have r: "\<forall>n. run env n = Halted h" using run_halted[OF s] by blast
  have t: "trace h = setup_prefix k
          @ [AsBegin True, BhBegin CONTINUOUS_HIGH_RES_MODE False,
             SerialWrite (''Error: could not initialize BH1750 (check wiring).'' @ CRLF)]"
    by (simp add: h_def trace_init)
  have o: "serial_out h = ''Error: could not initialize BH1750 (check wiring).'' @ CRLF"
    unfolding serial_out_def t serial_bytes_append serial_bytes_setup_prefix
    by (simp add: serial_bytes_def)
  have l: "last (trace h)
         = SerialWrite (''Error: could not initialize BH1750 (check wiring).'' @ CRLF)"
    unfolding t by simp
  show ?thesis using k r t o l by blast
qed

text \<open>The input \<open>env_bh_fail\<close>: the spectral sensor answers, the illuminance sensor does not.\<close>

theorem bh1750_failure_terminal_witness:
  "serial_ready env_bh_fail 0 \<and> as_begin env_bh_fail \<and> \<not> bh_begin env_bh_fail
   \<and> (\<exists>k h. first_serial env_bh_fail k
     \<and> (\<forall>n. run env_bh_fail n = Halted h)
     \<and> serial_out h = ''Error: could not initialize BH1750 (check wiring).'' @ CRLF)"
proof -
  have a: "serial_ready env_bh_fail 0" by (simp add: env_bh_fail_def env_sample_def)
  have b: "as_begin env_bh_fail" by (simp add: env_bh_fail_def env_sample_def)
  have c: "\<not> bh_begin env_bh_fail" by (simp add: env_bh_fail_def)
  from bh1750_failure_terminal[OF a b c] have "\<exists>k h. first_serial env_bh_fail k
     \<and> (\<forall>n. run env_bh_fail n = Halted h)
     \<and> serial_out h = ''Error: could not initialize BH1750 (check wiring).'' @ CRLF"
    by blast
  then show ?thesis using a b c by (intro conjI)
qed

subsection \<open>C8: the poll loop has no timeout\<close>

text \<open>
  Claim C8. The wait loop of \<^verbatim>\<open>loop()\<close>, entered at poll \<open>i\<close>, never exits exactly when no
  poll from \<open>i\<close> on reports ready, and \<^verbatim>\<open>loop()\<close> returns exactly when some poll of the
  cycle reports ready. Whatever the later polls report, as long as \<open>k\<close> polls in a row
  have reported false the loop goes on with the next poll, in the state \<open>polled k s\<close>:
  the state \<open>s\<close> it was entered in with \<open>k\<close> poll and pause events added, the same
  serial output (no record, no diagnostic) and the same buffer; there is no bound on
  \<open>k\<close>, and the loop exits at the first poll that reports true, in that state with the
  successful poll added. If no poll of the cycle ever reports ready, the cycle is
  blocked right after the start of the measurement and no later cycle is ever run.
\<close>

theorem poll_loop_no_timeout:
  "(wait_data env c i s = None \<longleftrightarrow> (\<forall>j\<ge>i. \<not> data_ready env c j))
   \<and> ((\<exists>s'. loop_fn env c s = Returned s') \<longleftrightarrow> (\<exists>j. data_ready env c j))
   \<and> ((\<forall>j<k. \<not> data_ready env c (i + j)) \<longrightarrow>
         wait_data env c i s = wait_data env c (i + k) (polled k s)
       \<and> (data_ready env c (i + k) \<longrightarrow>
            wait_data env c i s = Some (emit (DataReady True) (polled k s)))
       \<and> trace (polled k s) = trace s @ concat (replicate k [DataReady False, Delay 5])
       \<and> serial_out (polled k s) = serial_out s
       \<and> sensorValues (polled k s) = sensorValues s)
   \<and> ((\<forall>j. \<not> data_ready env c j) \<longrightarrow>
         loop_fn env c s = Blocked (emit StartMeasurement s)
       \<and> serial_out (emit StartMeasurement s) = serial_out s
       \<and> (\<forall>n. cycles env c (Suc n) s = Blocked (emit StartMeasurement s)))"
proof (intro conjI impI allI)
  show "wait_data env c i s = None \<longleftrightarrow> (\<forall>j\<ge>i. \<not> data_ready env c j)"
    by (rule wait_data_None_iff)
  show "(\<exists>s'. loop_fn env c s = Returned s') \<longleftrightarrow> (\<exists>j. data_ready env c j)"
    by (rule loop_fn_Returned_iff)
  show "trace (polled k s) = trace s @ concat (replicate k [DataReady False, Delay 5])"
    by (simp add: polled_def)
  show "serial_out (polled k s) = serial_out s" by (rule serial_out_polled)
  show "sensorValues (polled k s) = sensorValues s" by (simp add: polled_def)
next
  assume f: "\<forall>j<k. \<not> data_ready env c (i + j)"
  show "wait_data env c i s = wait_data env c (i + k) (polled k s)"
    using f by (rule wait_data_unroll)
  show "wait_data env c i s = Some (emit (DataReady True) (polled k s))"
    if "data_ready env c (i + k)"
    using f that by (rule wait_data_Some)
next
  assume n: "\<forall>j. \<not> data_ready env c j"
  show b: "loop_fn env c s = Blocked (emit StartMeasurement s)"
    using n by (rule loop_fn_never)
  show "serial_out (emit StartMeasurement s) = serial_out s" by (rule serial_out_start)
  show "cycles env c (Suc n) s = Blocked (emit StartMeasurement s)" for n
    by (simp add: b)
qed

text \<open>
  The sensor of \<open>env_sample\<close> reports false twice and then true: the loop exits in the
  state with two failed polls and nothing written. The sensor of \<open>env_stuck\<close> never
  reports ready: its first cycle blocks.
\<close>

theorem poll_loop_no_timeout_witness:
  "\<not> data_ready env_sample 0 0 \<and> \<not> data_ready env_sample 0 1 \<and> data_ready env_sample 0 2
   \<and> wait_data env_sample 0 0 (emit StartMeasurement init_state)
       = Some (emit (DataReady True) (polled 2 (emit StartMeasurement init_state)))
   \<and> trace (polled 2 (emit StartMeasurement init_state))
       = [StartMeasurement, DataReady False, Delay 5, DataReady False, Delay 5]
   \<and> serial_out (polled 2 (emit StartMeasurement init_state)) = []
   \<and> (\<exists>s'. loop_fn env_sample 0 init_state = Returned s')
   \<and> (\<forall>j. \<not> data_ready env_stuck 0 j)
   \<and> loop_fn env_stuck 0 init_state = Blocked (emit StartMeasurement init_state)
   \<and> (\<forall>n. cycles env_stuck 0 (Suc n) init_state = Blocked (emit StartMeasurement init_state))"
proof -
  have p0: "\<not> data_ready env_sample 0 0" and p1: "\<not> data_ready env_sample 0 1"
    and p2: "data_ready env_sample 0 2"
    by (simp_all add: env_sample_def)
  have f: "\<forall>j<2. \<not> data_ready env_sample 0 (0 + j)" by (simp add: env_sample_def)
  have r: "data_ready env_sample 0 (0 + 2)" by (simp add: env_sample_def)
  have n: "\<forall>j. \<not> data_ready env_stuck 0 j" by (simp add: env_stuck_def)
  note v = poll_loop_no_timeout[of env_sample 0 0 "emit StartMeasurement init_state" 2]
  note v' = poll_loop_no_timeout[of env_sample 0 0 init_state 0]
  note w = poll_loop_no_timeout[of env_stuck 0 0 init_state 0]
  from v f r have a: "wait_data env_sample 0 0 (emit StartMeasurement init_state)
       = Some (emit (DataReady True) (polled 2 (emit StartMeasurement init_state)))"
    by blast
  from v f have "trace (polled 2 (emit StartMeasurement init_state))
       = trace (emit StartMeasurement init_state) @ concat (replicate 2 [DataReady False, Delay 5])"
    by blast
  then have b: "trace (polled 2 (emit StartMeasurement init_state))
       = [StartMeasurement, DataReady False, Delay 5, DataReady False, Delay 5]"
    by (simp add: emit_def init_state_def numeral_2_eq_2)
  from v f have "serial_out (polled 2 (emit StartMeasurement init_state))
       = serial_out (emit StartMeasurement init_state)"
    by blast
  then have c: "serial_out (polled 2 (emit StartMeasurement init_state)) = []"
    by (simp add: serial_out_def emit_def init_state_def serial_bytes_def)
  from v' p2 have d: "\<exists>s'. loop_fn env_sample 0 init_state = Returned s'" by blast
  from w n have e: "loop_fn env_stuck 0 init_state = Blocked (emit StartMeasurement init_state)"
    by blast
  from w n have g: "\<forall>n. cycles env_stuck 0 (Suc n) init_state = Blocked (emit StartMeasurement init_state)"
    by blast
  show ?thesis using p0 p1 p2 a b c d n e g by (intro conjI)
qed

subsection \<open>C9: initialization happens once, before the cycles\<close>

text \<open>
  Claim C9, as amended. Once the serial port is up, so that \<^verbatim>\<open>setup()\<close> gets past
  \<^verbatim>\<open>while(!Serial);\<close>, the following holds however long the program is observed. Whatever
  the sensors answer, its events begin with those of \<^verbatim>\<open>setup()\<close> up to \<^verbatim>\<open>pinMode\<close>,
  among them the one \<^verbatim>\<open>Wire.begin()\<close>, followed by the call of \<^verbatim>\<open>as7262.begin()\<close>. If
  both sensors answer, the events go on with the two \<^verbatim>\<open>begin\<close> calls, the confirmation
  of the illuminance sensor and the one final message; every event after that belongs
  to a cycle (none is an event of \<^verbatim>\<open>setup()\<close>), and the serial output is the two
  messages followed by the records of the cycles completed so far, one after the other
  and nothing between them. All \<open>n\<close> cycles are completed when the measurement of each
  of them becomes ready.
\<close>

theorem initialization_once:
  assumes "serial_ready env j"
  shows "\<exists>k. first_serial env k
     \<and> (\<forall>n. \<exists>evs. trace (final (run env n)) = setup_prefix k @ AsBegin (as_begin env) # evs)
     \<and> (as_begin env \<and> bh_begin env \<longrightarrow>
          (\<forall>n. \<exists>m evs. m \<le> n
             \<and> trace (final (run env n)) =
                 setup_prefix k
                 @ [AsBegin True, BhBegin CONTINUOUS_HIGH_RES_MODE True,
                    SerialWrite (''BH1750 ready'' @ CRLF),
                    SerialWrite (''Sensors initialized. Starting measurements...'' @ CRLF)]
                 @ evs
             \<and> list_all (\<lambda>e. \<not> setup_event e) evs
             \<and> serial_bytes evs = concat (map (record_of env) [0..<m])
             \<and> serial_out (final (run env n)) =
                 ''BH1750 ready'' @ CRLF
                 @ ''Sensors initialized. Starting measurements...'' @ CRLF
                 @ concat (map (record_of env) [0..<m])
             \<and> (m = n \<longleftrightarrow> (\<exists>s'. run env n = Returned s'))
             \<and> ((\<forall>c<n. \<exists>i. data_ready env c i) \<longrightarrow> m = n)))"
proof -
  from first_serial_ex[OF assms] obtain k where k: "first_serial env k" ..
  have p1: "\<exists>evs. trace (final (run env n)) = setup_prefix k @ AsBegin (as_begin env) # evs" for n
  proof -
    from setup_fn_trace_prefix[OF k] obtain e1 where
      "trace (final (setup_fn env init_state)) = setup_prefix k @ AsBegin (as_begin env) # e1" ..
    moreover from run_trace_extends[of env n] obtain e2 where
      "trace (final (run env n)) = trace (final (setup_fn env init_state)) @ e2" ..
    ultimately show ?thesis by simp
  qed
  have p2: "\<exists>m evs. m \<le> n
             \<and> trace (final (run env n)) =
                 setup_prefix k
                 @ [AsBegin True, BhBegin CONTINUOUS_HIGH_RES_MODE True,
                    SerialWrite (''BH1750 ready'' @ CRLF),
                    SerialWrite (''Sensors initialized. Starting measurements...'' @ CRLF)]
                 @ evs
             \<and> list_all (\<lambda>e. \<not> setup_event e) evs
             \<and> serial_bytes evs = concat (map (record_of env) [0..<m])
             \<and> serial_out (final (run env n)) =
                 ''BH1750 ready'' @ CRLF
                 @ ''Sensors initialized. Starting measurements...'' @ CRLF
                 @ concat (map (record_of env) [0..<m])
             \<and> (m = n \<longleftrightarrow> (\<exists>s'. run env n = Returned s'))
             \<and> ((\<forall>c<n. \<exists>i. data_ready env c i) \<longrightarrow> m = n)"
    if ab: "as_begin env \<and> bh_begin env" for n
  proof -
    define s0 where "s0 = \<lparr>sensorValues = sensorValues init_state,
       trace = trace init_state @ setup_prefix k
         @ [AsBegin True, BhBegin CONTINUOUS_HIGH_RES_MODE True,
            SerialWrite (''BH1750 ready'' @ CRLF),
            SerialWrite (''Sensors initialized. Starting measurements...'' @ CRLF)]\<rparr>"
    have s: "setup_fn env init_state = Returned s0"
      unfolding s0_def using k ab by (intro setup_fn_ok) simp_all
    have r: "run env n = cycles env 0 n s0" by (simp add: run_def s)
    have len: "length (sensorValues s0) = AS726x_NUM_CHANNELS"
      by (simp add: s0_def length_init)
    from cycles_progress[OF len, of n env 0] obtain m evs where
      m: "m \<le> n" and tr: "trace (final (cycles env 0 n s0)) = trace s0 @ evs"
      and ns: "list_all (\<lambda>e. \<not> setup_event e) evs"
      and sb: "serial_bytes evs = concat (map (record_of env) [0..<0 + m])"
      and ret: "m = n \<longleftrightarrow> (\<exists>s'. cycles env 0 n s0 = Returned s')"
      and blk: "m < n \<longrightarrow> cycles env 0 n s0 = Blocked (final (cycles env 0 n s0))
            \<and> (\<forall>j. \<not> data_ready env (0 + m) j)"
      by blast
    have t0: "trace s0 = setup_prefix k
         @ [AsBegin True, BhBegin CONTINUOUS_HIGH_RES_MODE True,
            SerialWrite (''BH1750 ready'' @ CRLF),
            SerialWrite (''Sensors initialized. Starting measurements...'' @ CRLF)]"
      by (simp add: s0_def trace_init)
    have t: "trace (final (run env n)) = setup_prefix k
         @ [AsBegin True, BhBegin CONTINUOUS_HIGH_RES_MODE True,
            SerialWrite (''BH1750 ready'' @ CRLF),
            SerialWrite (''Sensors initialized. Starting measurements...'' @ CRLF)] @ evs"
      unfolding r tr t0 by simp
    have o: "serial_out (final (run env n)) =
                 ''BH1750 ready'' @ CRLF
                 @ ''Sensors initialized. Starting measurements...'' @ CRLF
                 @ concat (map (record_of env) [0..<m])"
      unfolding serial_out_def t serial_bytes_append serial_bytes_setup_prefix
      using sb by (simp add: serial_bytes_def)
    have all: "(\<forall>c<n. \<exists>i. data_ready env c i) \<longrightarrow> m = n"
    proof
      assume a: "\<forall>c<n. \<exists>i. data_ready env c i"
      show "m = n"
      proof (rule ccontr)
        assume "m \<noteq> n"
        then have "m < n" using m by simp
        with blk a show False by auto
      qed
    qed
    show ?thesis
      using m t ns sb o ret all unfolding r by (intro exI[of _ m] exI[of _ evs]) simp
  qed
  show ?thesis using k p1 p2 by blast
qed

text \<open>Two cycles of the sample input: the two messages, then two records.\<close>

theorem initialization_once_witness:
  "serial_ready env_sample 0 \<and> as_begin env_sample \<and> bh_begin env_sample
   \<and> (\<forall>c. \<exists>i. data_ready env_sample c i)
   \<and> serial_out (final (run env_sample 2)) =
        ''BH1750 ready'' @ CRLF @ ''Sensors initialized. Starting measurements...'' @ CRLF
        @ record_of env_sample 0 @ record_of env_sample 1"
proof -
  have a: "serial_ready env_sample 0" by (simp add: env_sample_def)
  have b: "as_begin env_sample" "bh_begin env_sample" by (simp_all add: env_sample_def)
  have d: "\<forall>c. \<exists>i. data_ready env_sample c i"
    by (auto simp: env_sample_def)
  from initialization_once[OF a] b obtain m where
    o: "serial_out (final (run env_sample 2)) =
        ''BH1750 ready'' @ CRLF @ ''Sensors initialized. Starting measurements...'' @ CRLF
        @ concat (map (record_of env_sample) [0..<m])"
    and m: "(\<forall>c<2. \<exists>i. data_ready env_sample c i) \<longrightarrow> m = 2"
    by blast
  from m d have "m = 2" by blast
  then have "[0..<m] = [0, 1]" by (simp add: upt_rec)
  with o have "serial_out (final (run env_sample 2)) =
        ''BH1750 ready'' @ CRLF @ ''Sensors initialized. Starting measurements...'' @ CRLF
        @ record_of env_sample 0 @ record_of env_sample 1"
    by simp
  then show ?thesis using a b d by (intro conjI)
qed

text \<open>
  The claim as it was stated has the bus initialized unconditionally. In the sketch
  \<^verbatim>\<open>while(!Serial);\<close> comes before \<^verbatim>\<open>Wire.begin()\<close>: with a serial port that never comes
  up and two sensors that would answer, the program blocks after \<^verbatim>\<open>Serial.begin\<close>; the
  bus is not initialized and nothing is written.
\<close>

theorem initialization_once_counterexample:
  "as_begin env_no_serial \<and> bh_begin env_no_serial
   \<and> run env_no_serial 3 = Blocked (emit (SerialBegin 115200) init_state)
   \<and> trace (final (run env_no_serial 3)) = [SerialBegin 115200]
   \<and> WireBegin \<notin> set (trace (final (run env_no_serial 3)))
   \<and> serial_out (final (run env_no_serial 3)) = []"
proof -
  have n: "\<forall>j. \<not> serial_ready env_no_serial j" by (simp add: env_no_serial_def)
  have r: "run env_no_serial 3 = Blocked (emit (SerialBegin 115200) init_state)"
    by (simp add: run_def setup_fn_blocked[OF n])
  have t: "trace (final (run env_no_serial 3)) = [SerialBegin 115200]"
    unfolding r by (simp add: emit_def init_state_def)
  have o: "serial_out (final (run env_no_serial 3)) = []"
    unfolding serial_out_def t by (simp add: serial_bytes_def)
  have ab: "as_begin env_no_serial" "bh_begin env_no_serial"
    by (simp_all add: env_no_serial_def env_sample_def)
  show ?thesis using ab r t o by simp
qed

subsection \<open>C10: the output is a function of the values the calls return\<close>

text \<open>
  Claim C10. Take two runs, each observed up to the end of its \<open>n\<close>-th cycle or to the
  point where it halts or blocks before that. If the driver calls of the two runs
  (the two \<^verbatim>\<open>begin\<close> calls, the data-ready polls, the reads of the channels, of the
  temperature and of the illuminance) have returned the same sequence of values, the
  bytes on the serial line are the same in the two runs. Only the values of calls that
  were made count: what a sensor would have answered to a call that was not made does
  not matter.
\<close>

theorem deterministic_output:
  assumes "inputs (trace (final (run e1 n))) = inputs (trace (final (run e2 n)))"
  shows "serial_out (final (run e1 n)) = serial_out (final (run e2 n))"
proof (cases rule: run_shape[of e1 n])
  case blocked
  then show ?thesis using assms by (cases rule: run_shape[of e2 n]) simp_all
next
  case as_fail
  then show ?thesis using assms by (cases rule: run_shape[of e2 n]) simp_all
next
  case bh_fail
  then show ?thesis using assms by (cases rule: run_shape[of e2 n]) simp_all
next
  case ok1: (ok s1 ev1)
  show ?thesis
  proof (cases rule: run_shape[of e2 n])
    case blocked
    then show ?thesis using assms ok1 by simp
  next
    case as_fail
    then show ?thesis using assms ok1 by simp
  next
    case bh_fail
    then show ?thesis using assms ok1 by simp
  next
    case (ok s2 ev2)
    have "inputs ev1 = inputs ev2" using assms ok1(3) ok(3) by simp
    from cycles_inputs_determine[OF ok1(1) ok(1) ok1(2) ok(2) this]
    show ?thesis by (simp add: ok1(4) ok(4))
  qed
qed

text \<open>
  The sensors of \<open>env_sample\<close> and \<open>env_once\<close> differ in what the fourth poll of a cycle
  would report; no cycle makes a fourth poll, and the calls of the two runs return the
  same values.
\<close>

theorem deterministic_output_witness:
  "inputs (trace (final (run env_sample 1))) = inputs (trace (final (run env_once 1)))
   \<and> data_ready env_sample 0 3 \<and> \<not> data_ready env_once 0 3
   \<and> serial_out (final (run env_sample 1)) = serial_out (final (run env_once 1))"
proof -
  have h: "inputs (trace (final (run env_sample 1))) = inputs (trace (final (run env_once 1)))"
    by (simp only: once_run)
  have d: "data_ready env_sample 0 3" "\<not> data_ready env_once 0 3"
    by (simp_all add: env_sample_def env_once_def)
  from deterministic_output[OF h] h d show ?thesis by (intro conjI)
qed

end
